(* ===== verification/Iggy_Prelude.thy ===== *)
theory Iggy_Prelude
  imports Main "HOL-Library.Word"
begin

text \<open>
  What every component of the development shares: the names of the machine integers of
  the C++ code, the exceptions it throws and the type of a call that may throw, the decimal
  rendering that \<open>fmt::format\<close> uses, and a locale of transition systems with an
  invariant.
\<close>

section \<open>Machine integers\<close>

type_synonym u8 = "8 word"
type_synonym u16 = "16 word"
type_synonym u32 = "32 word"
type_synonym u64 = "64 word"
type_synonym u128 = "128 word"
type_synonym bytes = "u8 list"

section \<open>Exceptions as values\<close>

text \<open>
  One constructor per exception type that the code or the part of the standard library it
  calls can throw; the argument is the message passed to the constructor (\<open>what()\<close>).
\<close>

datatype exn =
    Invalid_Argument string
  | Runtime_Error string
  | Out_Of_Range string
  | Filesystem_Error string
  | Ios_Failure
  | Bad_Optional_Access

type_synonym 'a result = "exn + 'a"

text \<open>Sequencing: an exception leaves the block, a value goes to the rest of it.\<close>

definition rbind :: "'a result \<Rightarrow> ('a \<Rightarrow> 'b result) \<Rightarrow> 'b result" where
  "rbind m f = (case m of Inl e \<Rightarrow> Inl e | Inr x \<Rightarrow> f x)"

definition throws :: "'a result \<Rightarrow> bool" where
  "throws m \<longleftrightarrow> (case m of Inl _ \<Rightarrow> True | Inr _ \<Rightarrow> False)"

named_theorems result_simps \<open>rewriting of results and of their sequencing\<close>

lemma rbind_Inl [simp, result_simps]: "rbind (Inl e) f = Inl e"
  by (simp add: rbind_def)

lemma rbind_Inr [simp, result_simps]: "rbind (Inr x) f = f x"
  by (simp add: rbind_def)

lemma rbind_eq_Inr_iff [result_simps]: "rbind m f = Inr y \<longleftrightarrow> (\<exists>x. m = Inr x \<and> f x = Inr y)"
  by (cases m) auto

lemma rbind_eq_Inl_iff [result_simps]:
  "rbind m f = Inl e \<longleftrightarrow> m = Inl e \<or> (\<exists>x. m = Inr x \<and> f x = Inl e)"
  by (cases m) auto

lemma rbind_assoc: "rbind (rbind m f) g = rbind m (\<lambda>x. rbind (f x) g)"
  by (cases m) auto

lemma throws_Inl [simp]: "throws (Inl e)"
  by (simp add: throws_def)

lemma throws_Inr [simp]: "\<not> throws (Inr x)"
  by (simp add: throws_def)

lemma not_throws_iff: "\<not> throws m \<longleftrightarrow> (\<exists>x. m = Inr x)"
  by (cases m) auto

section \<open>Decimal numerals\<close>

definition digit_char :: "nat \<Rightarrow> char" where
  "digit_char n = char_of (48 + n)"

text \<open>\<open>fmt::format("{}", n)\<close> for a non-negative integer: its decimal digits.\<close>

fun nat_decimal :: "nat \<Rightarrow> string" where
  "nat_decimal n = (if n < 10 then [digit_char n]
     else nat_decimal (n div 10) @ [digit_char (n mod 10)])"

declare nat_decimal.simps [simp del]

definition int_decimal :: "int \<Rightarrow> string" where
  "int_decimal i = (if i < 0 then CHR ''-'' # nat_decimal (nat (- i)) else nat_decimal (nat i))"

definition is_digit :: "char \<Rightarrow> bool" where
  "is_digit c \<longleftrightarrow> 48 \<le> (of_char c :: nat) \<and> (of_char c :: nat) \<le> 57"

definition digit_val :: "char \<Rightarrow> nat" where
  "digit_val c = of_char c - 48"

text \<open>The value of a run of digits, most significant first.\<close>

definition decimal_val :: "string \<Rightarrow> nat" where
  "decimal_val ds = foldl (\<lambda>a c. 10 * a + digit_val c) 0 ds"

lemma of_char_digit_char: "d < 10 \<Longrightarrow> of_char (digit_char d) = (48 + d :: nat)"
  by (simp add: digit_char_def)

lemma digit_val_digit_char [simp]: "d < 10 \<Longrightarrow> digit_val (digit_char d) = d"
  by (simp add: digit_val_def of_char_digit_char)

lemma is_digit_digit_char [simp]: "d < 10 \<Longrightarrow> is_digit (digit_char d)"
  by (simp add: is_digit_def of_char_digit_char)

lemma nat_decimal_nonempty [simp]: "nat_decimal n \<noteq> []"
  by (subst nat_decimal.simps) simp

lemma nat_decimal_digits: "\<forall>c \<in> set (nat_decimal n). is_digit c"
proof (induction n rule: nat_decimal.induct)
  case (1 n)
  then show ?case by (subst nat_decimal.simps) auto
qed

lemma decimal_val_snoc: "decimal_val (ds @ [c]) = 10 * decimal_val ds + digit_val c"
  by (simp add: decimal_val_def)

text \<open>Rendering and reading back is the identity.\<close>

lemma decimal_val_nat_decimal [simp]: "decimal_val (nat_decimal n) = n"
proof (induction n rule: nat_decimal.induct)
  case (1 n)
  show ?case
  proof (cases "n < 10")
    case True
    then show ?thesis by (subst nat_decimal.simps) (simp add: decimal_val_def)
  next
    case False
    with 1 show ?thesis by (subst nat_decimal.simps) (simp add: decimal_val_snoc)
  qed
qed

lemma nat_decimal_inject [simp]: "nat_decimal m = nat_decimal n \<longleftrightarrow> m = n"
  by (metis decimal_val_nat_decimal)

section \<open>Lists\<close>

lemma takeWhile_all: "\<forall>x \<in> set xs. P x \<Longrightarrow> takeWhile P xs = xs"
  by (induction xs) auto

lemma dropWhile_none: "xs \<noteq> [] \<Longrightarrow> \<not> P (hd xs) \<Longrightarrow> dropWhile P xs = xs"
  by (cases xs) auto

section \<open>Transition systems with an invariant\<close>

inductive reachable :: "('s \<Rightarrow> bool) \<Rightarrow> ('s \<Rightarrow> 's \<Rightarrow> bool) \<Rightarrow> 's \<Rightarrow> bool" for init step where
  reachable_init: "init s \<Longrightarrow> reachable init step s"
| reachable_step: "reachable init step s \<Longrightarrow> step s t \<Longrightarrow> reachable init step t"

locale transition_system =
  fixes init :: "'s \<Rightarrow> bool"
    and step :: "'s \<Rightarrow> 's \<Rightarrow> bool"
    and inv :: "'s \<Rightarrow> bool"
  assumes inv_init: "init s \<Longrightarrow> inv s"
    and inv_step: "inv s \<Longrightarrow> step s t \<Longrightarrow> inv t"
begin

lemma inv_reachable: "reachable init step s \<Longrightarrow> inv s"
  by (induction rule: reachable.induct) (auto intro: inv_init inv_step)

lemma inv_run: "step\<^sup>*\<^sup>* s t \<Longrightarrow> inv s \<Longrightarrow> inv t"
  by (induction rule: rtranclp_induct) (auto intro: inv_step)

end

text \<open>Reachable states are those that a run leads to.\<close>

lemma reachable_run: "step\<^sup>*\<^sup>* s t \<Longrightarrow> reachable init step s \<Longrightarrow> reachable init step t"
  by (induction rule: rtranclp_induct) (auto intro: reachable_step)

text \<open>
  A system seen through a projection of its states: each of its steps is a step of another system there, or
  does not show.
\<close>

locale simulation = transition_system init step inv
  for init :: "'s \<Rightarrow> bool" and step :: "'s \<Rightarrow> 's \<Rightarrow> bool" and inv :: "'s \<Rightarrow> bool" +
  fixes init' :: "'t \<Rightarrow> bool"
    and step' :: "'t \<Rightarrow> 't \<Rightarrow> bool"
    and proj :: "'s \<Rightarrow> 't"
  assumes init_proj: "init s \<Longrightarrow> init' (proj s)"
    and step_proj: "inv s \<Longrightarrow> step s t \<Longrightarrow> proj t = proj s \<or> step' (proj s) (proj t)"
begin

lemma reachable_proj: "reachable init step s \<Longrightarrow> reachable init' step' (proj s)"
proof (induction rule: reachable.induct)
  case (reachable_init s)
  then show ?case by (intro reachable.reachable_init init_proj)
next
  case (reachable_step s t)
  have "inv s" by (rule inv_reachable [OF reachable_step.hyps(1)])
  from step_proj [OF this reachable_step.hyps(2)] reachable_step.IH show ?case
    by (auto intro: reachable.reachable_step)
qed

end

text \<open>
  A system in which every step makes progress: a weight of the states goes down, so every run is
  bounded by the weight of its first state and can be continued to a state without a step.
\<close>

locale terminating_system = transition_system +
  fixes weight :: "'s \<Rightarrow> nat"
  assumes progress: "inv s \<Longrightarrow> step s t \<Longrightarrow> weight t < weight s"
begin

lemma run_bound: "(step ^^ k) s t \<Longrightarrow> inv s \<Longrightarrow> weight t + k \<le> weight s"
proof (induction k arbitrary: t)
  case (Suc k)
  then obtain u where u: "(step ^^ k) s u" and ut: "step u t" by auto
  from u have "step\<^sup>*\<^sup>* s u" by (rule relpowp_imp_rtranclp)
  with Suc.prems(2) have "inv u" using inv_run by blast
  from progress [OF this ut] have "weight t < weight u" .
  with Suc.IH [OF u Suc.prems(2)] show ?case by simp
qed simp

lemma run_completes: "inv s \<Longrightarrow> \<exists>t. step\<^sup>*\<^sup>* s t \<and> (\<forall>u. \<not> step t u)"
proof (induction "weight s" arbitrary: s rule: less_induct)
  case less
  show ?case
  proof (cases "\<exists>u. step s u")
    case True
    then obtain u where u: "step s u" ..
    with less.prems have "inv u" and "weight u < weight s" by (auto intro: inv_step progress)
    with less.hyps obtain t where "step\<^sup>*\<^sup>* u t" "\<forall>v. \<not> step t v" by blast
    with u show ?thesis by (blast intro: converse_rtranclp_into_rtranclp)
  qed blast
qed

lemma no_infinite_run: "inv (f 0) \<Longrightarrow> \<exists>n. \<not> step (f n) (f (Suc n))"
proof (rule ccontr)
  assume "inv (f 0)" and "\<nexists>n. \<not> step (f n) (f (Suc n))"
  then have st: "step (f n) (f (Suc n))" for n by blast
  have "(step ^^ k) (f 0) (f k)" for k
    by (induction k) (auto intro: st)
  from run_bound [OF this [of "Suc (weight (f 0))"] \<open>inv (f 0)\<close>] show False by simp
qed

end

end
