(* ===== verification/Iggy_Strings.thy ===== *)
theory Iggy_Strings
  imports Iggy_Prelude
begin

text \<open>
  The operations of \<open>std::string\<close> and of the C library that the code calls, on
  byte strings: searches that return a position or \<open>npos\<close>, \<open>substr\<close>,
  \<open>tolower\<close>, \<open>c_str\<close>, \<open>stoi\<close>. A position is an \<open>option\<close>, \<open>None\<close> for
  \<open>npos\<close>; the one place of the code where an unsigned size is decremented below zero
  (\<open>length() - 1\<close> of an empty string) uses \<open>size_pred\<close>, which wraps to \<open>npos\<close>
  as the 64-bit \<open>size_t\<close> does.
\<close>

section \<open>Searching and slicing\<close>

definition npos :: nat where
  "npos = 2 ^ 64 - 1"

definition size_pred :: "nat \<Rightarrow> nat" where
  "size_pred n = (if n = 0 then npos else n - 1)"

fun find_first_not_of :: "string \<Rightarrow> string \<Rightarrow> nat option" where
  "find_first_not_of [] ws = None"
| "find_first_not_of (c # cs) ws =
     (if c \<in> set ws then map_option Suc (find_first_not_of cs ws) else Some 0)"

text \<open>The search from the end: the same scan over the reversed string, with the position turned round.\<close>

definition find_last_not_of :: "string \<Rightarrow> string \<Rightarrow> nat option" where
  "find_last_not_of s ws = map_option (\<lambda>i. length s - 1 - i) (find_first_not_of (rev s) ws)"

definition substr :: "string \<Rightarrow> nat \<Rightarrow> nat \<Rightarrow> string result" where
  "substr s pos n = (if length s < pos then Inl (Out_Of_Range ''basic_string::substr'')
     else Inr (take n (drop pos s)))"

section \<open>Characters\<close>

text \<open>\<open>::tolower\<close> in the "C" locale: only the letters A to Z change.\<close>

definition tolower :: "char \<Rightarrow> char" where
  "tolower c = (let n = of_char c :: nat in if 65 \<le> n \<and> n \<le> 90 then char_of (n + 32) else c)"

definition is_upper :: "char \<Rightarrow> bool" where
  "is_upper c \<longleftrightarrow> 65 \<le> (of_char c :: nat) \<and> (of_char c :: nat) \<le> 90"

definition is_space :: "char \<Rightarrow> bool" where
  "is_space c \<longleftrightarrow> of_char c = (32 :: nat) \<or> 9 \<le> (of_char c :: nat) \<and> (of_char c :: nat) \<le> 13"

section \<open>C strings and numbers\<close>

definition NUL :: char where
  "NUL = CHR 0x00"

text \<open>The bytes a C function sees behind \<open>s.c_str()\<close>: everything before the first NUL.\<close>

definition c_str :: "string \<Rightarrow> string" where
  "c_str s = takeWhile (\<lambda>c. c \<noteq> NUL) s"

text \<open>
  \<open>std::stoi\<close>, base 10, for a 32-bit \<open>int\<close>: leading white space, an optional sign,
  the longest run of digits; the rest is ignored.
\<close>

definition stoi :: "string \<Rightarrow> int result" where
  "stoi s =
     (let s1 = dropWhile is_space s;
          neg = (s1 \<noteq> [] \<and> hd s1 = CHR ''-'');
          s2 = (if s1 \<noteq> [] \<and> (hd s1 = CHR ''-'' \<or> hd s1 = CHR ''+'') then tl s1 else s1);
          ds = takeWhile is_digit s2;
          v = (if neg then - int (decimal_val ds) else int (decimal_val ds))
      in if ds = [] then Inl (Invalid_Argument ''stoi'')
         else if v < - (2 ^ 31) \<or> 2 ^ 31 - 1 < v then Inl (Out_Of_Range ''stoi'')
         else Inr v)"

section \<open>Lemmas on searches\<close>

text \<open>A string with the given characters removed at both ends.\<close>

definition trim :: "string \<Rightarrow> string \<Rightarrow> string" where
  "trim ws s = rev (dropWhile (\<lambda>c. c \<in> set ws) (rev (dropWhile (\<lambda>c. c \<in> set ws) s)))"

lemma find_first_not_of_None: "find_first_not_of s ws = None \<longleftrightarrow> set s \<subseteq> set ws"
  by (induction s) auto

lemma find_first_not_of_Some:
  "find_first_not_of s ws = Some i \<Longrightarrow>
     i < length s \<and> s ! i \<notin> set ws \<and> drop i s = dropWhile (\<lambda>c. c \<in> set ws) s"
  by (induction s arbitrary: i) (auto split: if_splits)

lemma find_first_not_of_before:
  "find_first_not_of s ws = Some i \<Longrightarrow> j < i \<Longrightarrow> s ! j \<in> set ws"
proof (induction s arbitrary: i j)
  case Nil
  then show ?case by simp
next
  case (Cons c cs)
  then show ?case by (cases j) (auto split: if_splits)
qed

lemma find_last_not_of_None: "find_last_not_of s ws = None \<longleftrightarrow> set s \<subseteq> set ws"
  by (simp add: find_last_not_of_def find_first_not_of_None)

lemma find_last_not_of_Some:
  assumes "find_last_not_of s ws = Some i"
  shows "i < length s \<and> s ! i \<notin> set ws \<and> (\<forall>j. i < j \<and> j < length s \<longrightarrow> s ! j \<in> set ws)"
proof -
  from assms obtain k where k: "find_first_not_of (rev s) ws = Some k" and i: "i = length s - 1 - k"
    by (auto simp: find_last_not_of_def)
  from find_first_not_of_Some [OF k] have kl: "k < length s" and nk: "rev s ! k \<notin> set ws"
    by auto
  have "s ! j \<in> set ws" if "i < j" "j < length s" for j
  proof -
    have "rev s ! (length s - 1 - j) \<in> set ws"
      by (rule find_first_not_of_before [OF k]) (use that i kl in arith)
    then show ?thesis using that by (simp add: rev_nth)
  qed
  with kl nk i show ?thesis by (auto simp: rev_nth)
qed

text \<open>
  The slice between the first and the last character outside \<open>ws\<close> is the trimmed
  string.
\<close>

lemma slice_trim:
  assumes f: "find_first_not_of s ws = Some i" and l: "find_last_not_of s ws = Some j"
  shows "i \<le> j \<and> take (j - i + 1) (drop i s) = trim ws s"
proof -
  let ?P = "\<lambda>c. c \<in> set ws"
  from find_first_not_of_Some [OF f] have i: "i < length s" "s ! i \<notin> set ws"
    and d: "drop i s = dropWhile ?P s" by auto
  from find_last_not_of_Some [OF l] have j: "j < length s" "s ! j \<notin> set ws"
    and after: "\<And>k. j < k \<Longrightarrow> k < length s \<Longrightarrow> s ! k \<in> set ws" by auto
  from after i have ij: "i \<le> j" by (metis not_le)
  let ?m = "take (j - i + 1) (drop i s)"
  have "drop (j - i + 1) (drop i s) = drop (j + 1) s"
    using ij by simp
  then have split: "drop i s = ?m @ drop (j + 1) s"
    by (metis append_take_drop_id)
  have tail: "\<forall>c \<in> set (drop (j + 1) s). ?P c"
    using after by (auto simp: in_set_conv_nth)
  have lm: "length ?m = Suc (j - i)"
    using ij j(1) by simp
  then have ne: "?m \<noteq> []" by auto
  have "last ?m = ?m ! (j - i)"
    using ne lm by (simp add: last_conv_nth)
  also have "\<dots> = s ! j"
    using ij i(1) by simp
  finally have nl: "\<not> ?P (hd (rev ?m))"
    using j(2) ne by (simp add: hd_rev)
  have "dropWhile ?P (rev (drop i s)) = dropWhile ?P (rev (drop (j + 1) s) @ rev ?m)"
    by (subst split) simp
  also have "\<dots> = dropWhile ?P (rev ?m)"
    using tail by (intro dropWhile_append2) auto
  also have "\<dots> = rev ?m"
    using ne nl by (intro dropWhile_none) auto
  finally have "rev (dropWhile ?P (rev (drop i s))) = ?m" by simp
  with ij d show ?thesis by (simp add: trim_def)
qed

lemma dropWhile_hd_not: "dropWhile P xs \<noteq> [] \<Longrightarrow> \<not> P (hd (dropWhile P xs))"
  by (metis hd_dropWhile)

lemma trim_eq_Nil_iff: "trim ws s = [] \<longleftrightarrow> set s \<subseteq> set ws"
proof
  let ?d = "dropWhile (\<lambda>c. c \<in> set ws) s"
  assume "trim ws s = []"
  then have "\<forall>c \<in> set ?d. c \<in> set ws"
    by (simp only: trim_def rev_is_Nil_conv dropWhile_eq_Nil_conv set_rev)
  then have "?d = []"
    using dropWhile_hd_not [of "\<lambda>c. c \<in> set ws" s] hd_in_set [of ?d] by blast
  then show "set s \<subseteq> set ws" by auto
next
  assume "set s \<subseteq> set ws"
  then have "dropWhile (\<lambda>c. c \<in> set ws) s = []" by auto
  then show "trim ws s = []" by (simp only: trim_def rev.simps dropWhile.simps)
qed

lemma set_trim: "set (trim ws s) \<subseteq> set s"
  by (auto simp: trim_def dest!: set_dropWhileD)

lemma length_trim: "length (trim ws s) \<le> length s"
  by (simp add: trim_def) (metis length_dropWhile_le length_rev order_trans)

lemma last_trim: "trim ws s \<noteq> [] \<Longrightarrow> last (trim ws s) \<notin> set ws"
  unfolding trim_def
  using dropWhile_hd_not [of "\<lambda>c. c \<in> set ws" "rev (dropWhile (\<lambda>c. c \<in> set ws) s)"]
  by (simp only: last_rev rev_is_Nil_conv not_False_eq_True)

lemma hd_trim: "trim ws s \<noteq> [] \<Longrightarrow> hd (trim ws s) \<notin> set ws"
proof -
  assume ne: "trim ws s \<noteq> []"
  let ?d = "dropWhile (\<lambda>c. c \<in> set ws) s"
  have "\<exists>zs. ?d = trim ws s @ zs"
    unfolding trim_def by (metis rev_append rev_rev_ident takeWhile_dropWhile_id)
  then obtain zs where zs: "?d = trim ws s @ zs" ..
  with ne have "hd ?d = hd (trim ws s)" and "?d \<noteq> []" by auto
  with dropWhile_hd_not [of "\<lambda>c. c \<in> set ws" s] show ?thesis by simp
qed

lemma trim_id:
  assumes "s \<noteq> []" "hd s \<notin> set ws" "last s \<notin> set ws"
  shows "trim ws s = s"
  using assms by (simp add: trim_def dropWhile_none hd_rev)

lemma trim_trim [simp]: "trim ws (trim ws s) = trim ws s"
  by (cases "trim ws s = []") (simp_all add: trim_id hd_trim last_trim trim_eq_Nil_iff [of ws "[]", simplified])

section \<open>Lemmas on characters and numbers\<close>

lemma tolower_not_upper [simp]: "\<not> is_upper (tolower c)"
  by (auto simp: tolower_def is_upper_def Let_def)

lemma tolower_id: "\<not> is_upper c \<Longrightarrow> tolower c = c"
  by (auto simp: tolower_def is_upper_def Let_def)

lemma tolower_idem [simp]: "tolower (tolower c) = tolower c"
  by (rule tolower_id) simp

lemma map_tolower_id: "\<forall>c \<in> set s. \<not> is_upper c \<Longrightarrow> map tolower s = s"
  by (simp add: map_idI tolower_id)

lemma is_digit_not_space: "is_digit c \<Longrightarrow> \<not> is_space c"
  by (auto simp: is_digit_def is_space_def)

lemma is_digit_not_sign: "is_digit c \<Longrightarrow> c \<noteq> CHR ''-'' \<and> c \<noteq> CHR ''+''"
  by (auto simp: is_digit_def)

text \<open>\<open>stoi\<close> reads back every decimal numeral that fits an \<open>int\<close>.\<close>

lemma stoi_digits:
  assumes "ds \<noteq> []" "\<forall>c \<in> set ds. is_digit c"
  shows "stoi ds = (if decimal_val ds < 2 ^ 31 then Inr (int (decimal_val ds))
    else Inl (Out_Of_Range ''stoi''))"
proof -
  have hd: "is_digit (hd ds)" using assms by simp
  have d: "dropWhile is_space ds = ds"
    using assms hd by (simp add: dropWhile_none is_digit_not_space)
  have t: "takeWhile is_digit ds = ds"
    using assms by (simp add: takeWhile_all)
  have sg: "hd ds \<noteq> CHR ''-''" "hd ds \<noteq> CHR ''+''"
    using is_digit_not_sign [OF hd] by simp_all
  show ?thesis
    using assms(1) by (simp add: stoi_def d t sg)
qed

lemma stoi_nat_decimal:
  "stoi (nat_decimal n) = (if n < 2 ^ 31 then Inr (int n) else Inl (Out_Of_Range ''stoi''))"
  using stoi_digits [OF nat_decimal_nonempty nat_decimal_digits] by simp

lemma c_str_id: "NUL \<notin> set s \<Longrightarrow> c_str s = s"
  unfolding c_str_def by (rule takeWhile_all) auto

lemma c_str_append_NUL: "NUL \<notin> set p \<Longrightarrow> c_str (p @ NUL # s) = p"
  by (simp add: c_str_def) (metis (mono_tags, lifting) append.right_neutral takeWhile.simps(2) takeWhile_append2)

lemma c_str_no_NUL: "NUL \<notin> set (c_str s)"
  by (auto simp: c_str_def dest: set_takeWhileD)

lemma c_str_c_str [simp]: "c_str (c_str s) = c_str s"
  by (rule c_str_id) (rule c_str_no_NUL)

lemma length_c_str: "length (c_str s) \<le> length s"
  by (simp add: c_str_def length_takeWhile_le)

end
