(* ===== verification/Iggy_Protocol.thy ===== *)
theory Iggy_Protocol
  imports Iggy_Strings
begin

text \<open>
  The protocol metadata: \<^verbatim>\<open>sdk/net/transport.h\<close>, \<^verbatim>\<open>sdk/net/protocol.h\<close> and
  \<open>normalizeProtocolName\<close> of \<^verbatim>\<open>sdk/net/protocol.cc\<close>. Two equivalent views of the
  normalization are related: the index arithmetic of the code and the trimming of a
  string at both ends.
\<close>

section \<open>Data\<close>

datatype Transport = QUIC | HTTP | TCP

datatype MessageEncoding = BINARY | TEXT

text \<open>
  \<open>class ProtocolDefinition\<close>; the fields are the private members and their selectors
  the getters (\<open>getName\<close>, \<open>getDefaultPort\<close>, \<open>getTransport\<close>,
  \<open>isTlsSupported\<close>, \<open>getMessageEncoding\<close>).
\<close>

record ProtocolDefinition =
  pd_name :: string
  pd_defaultPort :: u16
  pd_transport :: Transport
  pd_tlsSupported :: bool
  pd_messageEncoding :: MessageEncoding

section \<open>Normalization\<close>

text \<open>The characters of the literal \<open>" \t\n\r\f\v"\<close>, in its order.\<close>

definition trimmed_chars :: string where
  "trimmed_chars = [CHR 0x20, CHR 0x09, CHR 0x0A, CHR 0x0D, CHR 0x0C, CHR 0x0B]"

definition normalizeProtocolName :: "string \<Rightarrow> string result" where
  "normalizeProtocolName protocol =
     (let lowerStr = map tolower protocol in
      case find_first_not_of lowerStr trimmed_chars of
        None \<Rightarrow> Inl (Invalid_Argument ''Protocol name cannot be empty'')
      | Some start \<Rightarrow>
          (let end = (case find_last_not_of lowerStr trimmed_chars of None \<Rightarrow> npos | Some e \<Rightarrow> e)
           in substr lowerStr start (end - start + 1)))"

text \<open>The constructor of \<open>ProtocolDefinition\<close>: it normalizes the name, and so may throw.\<close>

definition mk_ProtocolDefinition ::
  "string \<Rightarrow> u16 \<Rightarrow> Transport \<Rightarrow> bool \<Rightarrow> MessageEncoding \<Rightarrow> ProtocolDefinition result" where
  "mk_ProtocolDefinition name defaultPort transport tlsSupported messageEncoding =
     rbind (normalizeProtocolName name) (\<lambda>normalized.
       Inr \<lparr>pd_name = normalized, pd_defaultPort = defaultPort, pd_transport = transport,
            pd_tlsSupported = tlsSupported, pd_messageEncoding = messageEncoding\<rparr>)"

section \<open>Lemmas\<close>

text \<open>A name in canonical form: not empty, no upper-case letter, no white space at its ends.\<close>

definition canonical_name :: "string \<Rightarrow> bool" where
  "canonical_name s \<longleftrightarrow> s \<noteq> [] \<and> (\<forall>c \<in> set s. \<not> is_upper c)
     \<and> hd s \<notin> set trimmed_chars \<and> last s \<notin> set trimmed_chars"

definition blank :: "string \<Rightarrow> bool" where
  "blank s \<longleftrightarrow> set s \<subseteq> set trimmed_chars"

lemma tolower_trimmed [simp]: "tolower c \<in> set trimmed_chars \<longleftrightarrow> c \<in> set trimmed_chars"
proof (cases "is_upper c")
  case True
  then have "65 \<le> (of_char c :: nat)" "(of_char c :: nat) \<le> 90"
    by (auto simp: is_upper_def)
  then have "c \<notin> set trimmed_chars" and "(of_char (tolower c) :: nat) = of_char c + 32"
    by (auto simp: trimmed_chars_def tolower_def)
  moreover from this(2) \<open>65 \<le> _\<close> have "tolower c \<notin> set trimmed_chars"
    by (auto simp: trimmed_chars_def)
  ultimately show ?thesis by simp
next
  case False
  then show ?thesis by (simp add: tolower_id)
qed

lemma blank_map_tolower [simp]: "blank (map tolower s) \<longleftrightarrow> blank s"
  by (auto simp: blank_def)

lemma normalize_eq:
  "normalizeProtocolName s =
     (if blank s then Inl (Invalid_Argument ''Protocol name cannot be empty'')
      else Inr (trim trimmed_chars (map tolower s)))"
proof (cases "find_first_not_of (map tolower s) trimmed_chars")
  case None
  then have "blank (map tolower s)"
    by (simp only: find_first_not_of_None blank_def)
  then have "blank s" by simp
  with None show ?thesis by (simp add: normalizeProtocolName_def Let_def)
next
  case (Some i)
  then have nb': "\<not> set (map tolower s) \<subseteq> set trimmed_chars"
    by (metis find_first_not_of_None option.distinct(1))
  then have "\<not> blank (map tolower s)"
    by (simp only: blank_def not_False_eq_True)
  then have nb: "\<not> blank s" by simp
  from nb'
  obtain j where j: "find_last_not_of (map tolower s) trimmed_chars = Some j"
    by (metis find_last_not_of_None not_Some_eq)
  from find_first_not_of_Some [OF Some] have "i < length s" by simp
  with slice_trim [OF Some j] Some j nb show ?thesis
    by (simp add: normalizeProtocolName_def Let_def substr_def)
qed

lemma normalize_Inr_iff:
  "normalizeProtocolName s = Inr t \<longleftrightarrow> \<not> blank s \<and> t = trim trimmed_chars (map tolower s)"
  by (auto simp: normalize_eq)

lemma normalize_Inl_iff:
  "normalizeProtocolName s = Inl e \<longleftrightarrow>
     blank s \<and> e = Invalid_Argument ''Protocol name cannot be empty''"
  by (auto simp: normalize_eq)

lemma normalize_canonical: "normalizeProtocolName s = Inr t \<Longrightarrow> canonical_name t"
proof -
  assume "normalizeProtocolName s = Inr t"
  then have nb: "\<not> blank s" and t: "t = trim trimmed_chars (map tolower s)"
    by (auto simp: normalize_Inr_iff)
  have ne: "t \<noteq> []"
    using nb blank_map_tolower [of s] unfolding t trim_eq_Nil_iff blank_def by blast
  have "set t \<subseteq> set (map tolower s)" unfolding t by (rule set_trim)
  with ne show ?thesis
    using hd_trim last_trim t by (auto simp: canonical_name_def)
qed

lemma canonical_not_blank: "canonical_name s \<Longrightarrow> \<not> blank s"
  unfolding canonical_name_def blank_def by (meson hd_in_set subsetD)

lemma normalize_of_canonical: "canonical_name s \<Longrightarrow> normalizeProtocolName s = Inr s"
  using canonical_not_blank [of s]
  by (auto simp: normalize_Inr_iff canonical_name_def map_tolower_id trim_id)

lemma normalize_fixed_iff: "normalizeProtocolName s = Inr s \<longleftrightarrow> canonical_name s"
  using normalize_canonical normalize_of_canonical by blast

section \<open>Properties\<close>

text \<open>C7: normalizing a protocol name, with its two searches and the index arithmetic of
  \<open>substr\<close>, is exactly lower-casing and trimming; a name of nothing but white space, the
  empty one included, throws \<open>std::invalid_argument\<close>, and nothing else does.\<close>

theorem normalize_is_trim_lower:
  "normalizeProtocolName s =
     (if blank s then Inl (Invalid_Argument ''Protocol name cannot be empty'')
      else Inr (rev (dropWhile (\<lambda>c. c \<in> set trimmed_chars)
                (rev (dropWhile (\<lambda>c. c \<in> set trimmed_chars) (map tolower s))))))"
  unfolding normalize_eq trim_def ..

text \<open>C38: the result of a normalization is canonical (not empty, no upper-case letter, no
  white space at either end), is no longer than its input, and is a fixed point: normalizing
  it again returns it unchanged.\<close>

theorem normalize_yields_fixed_point:
  "case normalizeProtocolName s of
     Inl e \<Rightarrow> blank s
   | Inr t \<Rightarrow> canonical_name t \<and> length t \<le> length s \<and> normalizeProtocolName t = Inr t"
proof (cases "normalizeProtocolName s")
  case (Inl e)
  then have "blank s" by (simp add: normalize_Inl_iff)
  with Inl show ?thesis by simp
next
  case (Inr t)
  then have "canonical_name t" by (rule normalize_canonical)
  moreover have "length t \<le> length s"
    using Inr length_trim [of trimmed_chars "map tolower s"] by (simp add: normalize_Inr_iff)
  ultimately show ?thesis
    using Inr by (simp add: normalize_of_canonical)
qed

end
