(* ===== verification/Iggy_Provider.thy ===== *)
theory Iggy_Provider
  imports Iggy_Protocol
begin

text \<open>
  The interface \<open>ProtocolProvider\<close> of \<^verbatim>\<open>sdk/net/protocol.h\<close> and its
  implementation \<open>IggyProtocolProvider\<close> of \<^verbatim>\<open>sdk/net/iggy.h\<close> and
  \<^verbatim>\<open>sdk/net/iggy.cc\<close>. The abstract class is a record of its virtual functions (a
  provider is only used through a pointer to const), its contract the locale
  \<open>protocol_provider\<close>, which the implementation interprets.
\<close>

section \<open>The interface\<close>

record ProtocolProvider =
  getSupportedProtocols :: "ProtocolDefinition list"
  getProtocolDefinition :: "string \<Rightarrow> ProtocolDefinition result"
  isSupported :: "string \<Rightarrow> bool result"

text \<open>
  What a client may rely on: the three functions describe one set of definitions, looked up
  by normalized name.
\<close>

locale protocol_provider =
  fixes P :: ProtocolProvider
  assumes supported_found: "isSupported P s = Inr True \<Longrightarrow> \<exists>d. getProtocolDefinition P s = Inr d"
    and unsupported_raises: "isSupported P s = Inr False \<Longrightarrow>
      getProtocolDefinition P s = Inl (Invalid_Argument (''Unsupported protocol: '' @ s))"
    and raises_alike: "isSupported P s = Inl e \<Longrightarrow> getProtocolDefinition P s = Inl e"
    and found_listed: "getProtocolDefinition P s = Inr d \<Longrightarrow>
      d \<in> set (getSupportedProtocols P) \<and> normalizeProtocolName s = Inr (pd_name d)"
    and listed_found: "d \<in> set (getSupportedProtocols P) \<Longrightarrow>
      getProtocolDefinition P (pd_name d) = Inr d"
begin

lemma supported_iff_found:
  "isSupported P s = Inr True \<longleftrightarrow> (\<exists>d. getProtocolDefinition P s = Inr d)"
proof
  assume "\<exists>d. getProtocolDefinition P s = Inr d"
  then obtain d where d: "getProtocolDefinition P s = Inr d" ..
  show "isSupported P s = Inr True"
  proof (cases "isSupported P s")
    case (Inl e)
    with raises_alike d show ?thesis by fastforce
  next
    case (Inr b)
    with unsupported_raises [of s] d show ?thesis by (cases b) auto
  qed
qed (rule supported_found)

lemma listed_canonical: "d \<in> set (getSupportedProtocols P) \<Longrightarrow> canonical_name (pd_name d)"
  using found_listed [OF listed_found] normalize_fixed_iff by blast

lemma listed_unique:
  "d \<in> set (getSupportedProtocols P) \<Longrightarrow> d' \<in> set (getSupportedProtocols P) \<Longrightarrow>
     pd_name d = pd_name d' \<Longrightarrow> d = d'"
  by (metis listed_found sum.inject(2))

lemma supported_iff_listed:
  "isSupported P s = Inr True \<longleftrightarrow>
     (\<exists>d \<in> set (getSupportedProtocols P). normalizeProtocolName s = Inr (pd_name d))
       \<and> (\<exists>d. getProtocolDefinition P s = Inr d)"
  using supported_iff_found found_listed by blast

end

section \<open>The Iggy protocols\<close>

definition DEFAULT_HTTP_PORT :: u16 where "DEFAULT_HTTP_PORT = 3000"
definition DEFAULT_TCP_PORT :: u16 where "DEFAULT_TCP_PORT = 8090"
definition DEFAULT_QUIC_PORT :: u16 where "DEFAULT_QUIC_PORT = 8080"

definition QUIC_PROTOCOL :: string where "QUIC_PROTOCOL = ''quic''"
definition TCP_PROTOCOL :: string where "TCP_PROTOCOL = ''tcp''"
definition TCP_TLS_PROTOCOL :: string where "TCP_TLS_PROTOCOL = ''tcp+tls''"
definition HTTP_PROTOCOL :: string where "HTTP_PROTOCOL = ''http''"
definition HTTP_TLS_PROTOCOL :: string where "HTTP_TLS_PROTOCOL = ''http+tls''"

lemmas iggy_constants = DEFAULT_HTTP_PORT_def DEFAULT_TCP_PORT_def DEFAULT_QUIC_PORT_def
  QUIC_PROTOCOL_def TCP_PROTOCOL_def TCP_TLS_PROTOCOL_def HTTP_PROTOCOL_def HTTP_TLS_PROTOCOL_def

record IggyProtocolProvider =
  ipp_supportedProtocols :: "ProtocolDefinition list"
  ipp_supportedProtocolLookup :: "string \<rightharpoonup> ProtocolDefinition"

text \<open>The member initializer of \<open>supportedProtocols\<close>: five constructor calls, in order.\<close>

definition initial_protocols :: "ProtocolDefinition list result" where
  "initial_protocols =
     rbind (mk_ProtocolDefinition QUIC_PROTOCOL DEFAULT_QUIC_PORT QUIC True BINARY) (\<lambda>p1.
     rbind (mk_ProtocolDefinition TCP_PROTOCOL DEFAULT_TCP_PORT TCP False BINARY) (\<lambda>p2.
     rbind (mk_ProtocolDefinition TCP_TLS_PROTOCOL DEFAULT_TCP_PORT TCP True BINARY) (\<lambda>p3.
     rbind (mk_ProtocolDefinition HTTP_PROTOCOL DEFAULT_HTTP_PORT HTTP False TEXT) (\<lambda>p4.
     rbind (mk_ProtocolDefinition HTTP_TLS_PROTOCOL DEFAULT_HTTP_PORT HTTP True TEXT) (\<lambda>p5.
     Inr [p1, p2, p3, p4, p5])))))"

text \<open>The loop of the constructor, over the map built so far.\<close>

fun index_protocols ::
  "ProtocolDefinition list \<Rightarrow> (string \<rightharpoonup> ProtocolDefinition) \<Rightarrow> (string \<rightharpoonup> ProtocolDefinition)" where
  "index_protocols [] m = m"
| "index_protocols (protocol # ps) m = index_protocols ps (m(pd_name protocol \<mapsto> protocol))"

definition mk_IggyProtocolProvider :: "IggyProtocolProvider result" where
  "mk_IggyProtocolProvider = rbind initial_protocols (\<lambda>ps.
     Inr \<lparr>ipp_supportedProtocols = ps, ipp_supportedProtocolLookup = index_protocols ps Map.empty\<rparr>)"

definition iggy_getSupportedProtocols :: "IggyProtocolProvider \<Rightarrow> ProtocolDefinition list" where
  "iggy_getSupportedProtocols this = ipp_supportedProtocols this"

definition iggy_getProtocolDefinition ::
  "IggyProtocolProvider \<Rightarrow> string \<Rightarrow> ProtocolDefinition result" where
  "iggy_getProtocolDefinition this protocol =
     rbind (normalizeProtocolName protocol) (\<lambda>normalizedName.
       case ipp_supportedProtocolLookup this normalizedName of
         Some d \<Rightarrow> Inr d
       | None \<Rightarrow> Inl (Invalid_Argument (''Unsupported protocol: '' @ protocol)))"

text \<open>\<open>count\<close> on a \<open>std::map\<close>: 1 when the key is present, 0 otherwise.\<close>

definition map_count :: "('k \<rightharpoonup> 'v) \<Rightarrow> 'k \<Rightarrow> nat" where
  "map_count m k = (case m k of None \<Rightarrow> 0 | Some _ \<Rightarrow> 1)"

definition iggy_isSupported :: "IggyProtocolProvider \<Rightarrow> string \<Rightarrow> bool result" where
  "iggy_isSupported this protocol =
     rbind (normalizeProtocolName protocol) (\<lambda>normalizedName.
       Inr (map_count (ipp_supportedProtocolLookup this) normalizedName > 0))"

text \<open>The object as its base class: the overriding functions behind the virtual calls.\<close>

definition as_provider :: "IggyProtocolProvider \<Rightarrow> ProtocolProvider" where
  "as_provider this =
     \<lparr>getSupportedProtocols = iggy_getSupportedProtocols this,
      getProtocolDefinition = iggy_getProtocolDefinition this,
      isSupported = iggy_isSupported this\<rparr>"

section \<open>The constructed provider\<close>

definition iggy_protocols :: "ProtocolDefinition list" where
  "iggy_protocols =
    [\<lparr>pd_name = ''quic'', pd_defaultPort = 8080, pd_transport = QUIC, pd_tlsSupported = True, pd_messageEncoding = BINARY\<rparr>,
     \<lparr>pd_name = ''tcp'', pd_defaultPort = 8090, pd_transport = TCP, pd_tlsSupported = False, pd_messageEncoding = BINARY\<rparr>,
     \<lparr>pd_name = ''tcp+tls'', pd_defaultPort = 8090, pd_transport = TCP, pd_tlsSupported = True, pd_messageEncoding = BINARY\<rparr>,
     \<lparr>pd_name = ''http'', pd_defaultPort = 3000, pd_transport = HTTP, pd_tlsSupported = False, pd_messageEncoding = TEXT\<rparr>,
     \<lparr>pd_name = ''http+tls'', pd_defaultPort = 3000, pd_transport = HTTP, pd_tlsSupported = True, pd_messageEncoding = TEXT\<rparr>]"

definition iggy_instance :: IggyProtocolProvider where
  "iggy_instance =
     \<lparr>ipp_supportedProtocols = iggy_protocols,
      ipp_supportedProtocolLookup = index_protocols iggy_protocols Map.empty\<rparr>"

definition iggy_provider :: ProtocolProvider where
  "iggy_provider = as_provider iggy_instance"

lemma iggy_names_canonical:
  "canonical_name ''quic'' \<and> canonical_name ''tcp'' \<and> canonical_name ''tcp+tls''
     \<and> canonical_name ''http'' \<and> canonical_name ''http+tls''"
  by (simp add: canonical_name_def trimmed_chars_def is_upper_def)

lemma initial_protocols_eq: "initial_protocols = Inr iggy_protocols"
  by (simp add: initial_protocols_def mk_ProtocolDefinition_def iggy_constants iggy_protocols_def
      iggy_names_canonical normalize_of_canonical)

lemma mk_IggyProtocolProvider_eq: "mk_IggyProtocolProvider = Inr iggy_instance"
  by (simp add: mk_IggyProtocolProvider_def initial_protocols_eq iggy_instance_def)

lemma index_protocols_eq: "index_protocols ps m = m ++ map_of (rev (map (\<lambda>p. (pd_name p, p)) ps))"
  by (induction ps arbitrary: m) (auto simp: map_add_def fun_eq_iff split: option.splits)

text \<open>With distinct names the map of the loop finds exactly the definitions of the list.\<close>

lemma index_protocols_lookup:
  assumes "distinct (map pd_name ps)"
  shows "index_protocols ps Map.empty n = Some d \<longleftrightarrow> d \<in> set ps \<and> pd_name d = n"
proof -
  let ?xs = "rev (map (\<lambda>p. (pd_name p, p)) ps)"
  have "distinct (map fst ?xs)"
    using assms by (simp add: rev_map [symmetric] comp_def)
  then have "map_of ?xs n = Some d \<longleftrightarrow> (n, d) \<in> set ?xs"
    by simp
  then show ?thesis by (auto simp: index_protocols_eq)
qed

lemma iggy_protocols_distinct: "distinct (map pd_name iggy_protocols)"
  by (simp add: iggy_protocols_def)

lemma iggy_protocols_canonical: "d \<in> set iggy_protocols \<Longrightarrow> canonical_name (pd_name d)"
  using iggy_names_canonical by (auto simp: iggy_protocols_def)

lemma iggy_lookup:
  "ipp_supportedProtocolLookup iggy_instance n = Some d \<longleftrightarrow> d \<in> set iggy_protocols \<and> pd_name d = n"
  by (simp add: iggy_instance_def index_protocols_lookup [OF iggy_protocols_distinct])

lemma iggy_lookup_None:
  "ipp_supportedProtocolLookup iggy_instance n = None \<longleftrightarrow> n \<notin> pd_name ` set iggy_protocols"
  using iggy_lookup [of n] by (metis image_iff not_None_eq)

lemma iggy_count_pos:
  "map_count (ipp_supportedProtocolLookup iggy_instance) n > 0 \<longleftrightarrow> n \<in> pd_name ` set iggy_protocols"
  using iggy_lookup_None [of n] by (auto simp: map_count_def split: option.splits)

lemma iggy_provider_supported:
  "isSupported iggy_provider s = rbind (normalizeProtocolName s)
     (\<lambda>n. Inr (n \<in> pd_name ` set iggy_protocols))"
  by (simp add: iggy_provider_def as_provider_def iggy_isSupported_def iggy_count_pos)

lemma iggy_provider_listed [simp]: "getSupportedProtocols iggy_provider = iggy_protocols"
  by (simp add: iggy_provider_def as_provider_def iggy_getSupportedProtocols_def iggy_instance_def)

lemma iggy_provider_definition:
  "getProtocolDefinition iggy_provider s =
     rbind (normalizeProtocolName s) (\<lambda>n. case ipp_supportedProtocolLookup iggy_instance n of
       Some d \<Rightarrow> Inr d | None \<Rightarrow> Inl (Invalid_Argument (''Unsupported protocol: '' @ s)))"
  by (simp add: iggy_provider_def as_provider_def iggy_getProtocolDefinition_def)

lemma iggy_provider_found:
  "getProtocolDefinition iggy_provider s = Inr d \<longleftrightarrow>
     d \<in> set iggy_protocols \<and> normalizeProtocolName s = Inr (pd_name d)"
proof -
  have "(case ipp_supportedProtocolLookup iggy_instance n of
       Some d \<Rightarrow> Inr d | None \<Rightarrow> Inl e) = Inr d \<longleftrightarrow> d \<in> set iggy_protocols \<and> pd_name d = n" for n and e :: exn
    unfolding iggy_lookup [symmetric] by (simp split: option.split)
  then show ?thesis
    by (simp only: iggy_provider_definition rbind_eq_Inr_iff) auto
qed

lemma iggy_provider_unsupported:
  assumes "isSupported iggy_provider s = Inr False"
  shows "getProtocolDefinition iggy_provider s = Inl (Invalid_Argument (''Unsupported protocol: '' @ s))"
proof -
  from assms obtain n where n: "normalizeProtocolName s = Inr n" and "n \<notin> pd_name ` set iggy_protocols"
    by (auto simp: iggy_provider_supported rbind_eq_Inr_iff)
  then have "ipp_supportedProtocolLookup iggy_instance n = None"
    by (simp add: iggy_lookup_None)
  with n show ?thesis by (simp add: iggy_provider_definition)
qed

interpretation iggy: protocol_provider iggy_provider
proof
  fix s d
  show "getProtocolDefinition iggy_provider s = Inr d \<Longrightarrow>
      d \<in> set (getSupportedProtocols iggy_provider) \<and> normalizeProtocolName s = Inr (pd_name d)"
    by (simp add: iggy_provider_found)
  show "d \<in> set (getSupportedProtocols iggy_provider) \<Longrightarrow>
      getProtocolDefinition iggy_provider (pd_name d) = Inr d"
    by (simp add: iggy_provider_found normalize_fixed_iff iggy_protocols_canonical)
next
  fix s
  show "isSupported iggy_provider s = Inr True \<Longrightarrow> \<exists>d. getProtocolDefinition iggy_provider s = Inr d"
    by (auto simp: iggy_provider_supported iggy_provider_found rbind_eq_Inr_iff)
next
  fix s e
  show "isSupported iggy_provider s = Inl e \<Longrightarrow> getProtocolDefinition iggy_provider s = Inl e"
    by (auto simp: iggy_provider_supported rbind_eq_Inl_iff iggy_provider_definition)
qed (rule iggy_provider_unsupported)

section \<open>Properties\<close>

text \<open>C20: constructing the provider never throws, and the object it yields answers
  \<open>isSupported\<close> for every string: it throws on a blank name and otherwise says yes
  exactly for the five protocol names, whatever the letter case and the white space around
  them.\<close>

theorem provider_supports_exactly:
  "map_sum id (\<lambda>p. iggy_isSupported p s) mk_IggyProtocolProvider =
     Inr (if blank s then Inl (Invalid_Argument ''Protocol name cannot be empty'')
          else Inr (trim trimmed_chars (map tolower s)
                    \<in> {''quic'', ''tcp'', ''tcp+tls'', ''http'', ''http+tls''}))"
proof -
  have "pd_name ` set iggy_protocols = {''quic'', ''tcp'', ''tcp+tls'', ''http'', ''http+tls''}"
    by (simp add: iggy_protocols_def)
  then show ?thesis
    by (simp add: mk_IggyProtocolProvider_eq iggy_isSupported_def iggy_count_pos normalize_eq)
qed

text \<open>C5: the lookup by name refines the abstract directory, which is the list of supported
  protocols searched by normalized name; a name that is not in it throws
  \<open>std::invalid_argument\<close> with the name as the caller wrote it.\<close>

theorem lookup_refines_directory:
  "map_sum id (\<lambda>p. iggy_getProtocolDefinition p s) mk_IggyProtocolProvider =
     map_sum id (\<lambda>p. rbind (normalizeProtocolName s) (\<lambda>n.
        case find (\<lambda>d. pd_name d = n) (iggy_getSupportedProtocols p) of
          Some d \<Rightarrow> Inr d
        | None \<Rightarrow> Inl (Invalid_Argument (''Unsupported protocol: '' @ s)))) mk_IggyProtocolProvider"
proof -
  have "ipp_supportedProtocolLookup iggy_instance n = find (\<lambda>d. pd_name d = n) iggy_protocols" for n
  proof (cases "find (\<lambda>d. pd_name d = n) iggy_protocols")
    case None
    then have "n \<notin> pd_name ` set iggy_protocols" by (auto simp: find_None_iff)
    with None show ?thesis by (simp only: iggy_lookup_None [symmetric])
  next
    case (Some d)
    then have "d \<in> set iggy_protocols \<and> pd_name d = n" by (auto simp: find_Some_iff)
    with Some show ?thesis by (simp only: iggy_lookup)
  qed
  then have "iggy_getProtocolDefinition iggy_instance s =
     rbind (normalizeProtocolName s) (\<lambda>n.
        case find (\<lambda>d. pd_name d = n) (iggy_getSupportedProtocols iggy_instance) of
          Some d \<Rightarrow> Inr d
        | None \<Rightarrow> Inl (Invalid_Argument (''Unsupported protocol: '' @ s)))"
    by (simp only: iggy_getProtocolDefinition_def iggy_getSupportedProtocols_def iggy_instance_def
        IggyProtocolProvider.simps)
  then show ?thesis by (simp only: mk_IggyProtocolProvider_eq map_sum.simps)
qed

text \<open>\<open>isSupported\<close> and \<open>getProtocolDefinition\<close> agree on every string: one says
  yes exactly when the other returns, the definition returned is one of those listed, its name
  is the normalized argument, and both throw the same exception on a blank name.\<close>

theorem supported_iff_definition:
  "(isSupported iggy_provider s = Inr True \<longleftrightarrow>
      (\<exists>d \<in> set (getSupportedProtocols iggy_provider).
         getProtocolDefinition iggy_provider s = Inr d \<and> normalizeProtocolName s = Inr (pd_name d)))
   \<and> (isSupported iggy_provider s = Inr False \<longleftrightarrow>
      getProtocolDefinition iggy_provider s = Inl (Invalid_Argument (''Unsupported protocol: '' @ s)))
   \<and> (throws (isSupported iggy_provider s) \<longleftrightarrow> blank s)"
proof -
  have "isSupported iggy_provider s = Inr True \<longleftrightarrow>
      (\<exists>d \<in> set (getSupportedProtocols iggy_provider).
         getProtocolDefinition iggy_provider s = Inr d \<and> normalizeProtocolName s = Inr (pd_name d))"
    using iggy.supported_iff_found [of s] iggy.found_listed [of s] by blast
  moreover have "isSupported iggy_provider s = Inr False \<longleftrightarrow>
      getProtocolDefinition iggy_provider s = Inl (Invalid_Argument (''Unsupported protocol: '' @ s))"
  proof
    assume "isSupported iggy_provider s = Inr False"
    then show "getProtocolDefinition iggy_provider s = Inl (Invalid_Argument (''Unsupported protocol: '' @ s))"
      by (rule iggy.unsupported_raises)
  next
    assume e: "getProtocolDefinition iggy_provider s = Inl (Invalid_Argument (''Unsupported protocol: '' @ s))"
    then have "\<not> blank s"
      by (auto simp: iggy_provider_definition normalize_eq)
    with e iggy.supported_found [of s] show "isSupported iggy_provider s = Inr False"
      by (auto simp: iggy_provider_supported normalize_eq)
  qed
  moreover have "throws (isSupported iggy_provider s) \<longleftrightarrow> blank s"
    by (simp add: iggy_provider_supported normalize_eq)
  ultimately show ?thesis by blast
qed

end
