(* ===== verification/Iggy_Address.thy ===== *)
theory Iggy_Address
  imports Iggy_Provider
begin

text \<open>
  Logical addresses: \<^verbatim>\<open>sdk/net/address.h\<close>, \<^verbatim>\<open>sdk/net/address.cc\<close> and
  \<open>ProtocolProvider::createAddress\<close> of \<^verbatim>\<open>sdk/net/protocol.cc\<close>. The URL parser
  \<open>ada\<close> is not part of the sources: it is the record \<open>ada\<close> of the functions the
  code calls, over a type \<open>'u\<close> of parsed URLs, and what the code relies on is the three
  predicates \<open>ada_schemes\<close>, \<open>ada_ports\<close> and \<open>ada_default_ports\<close>.
\<close>

section \<open>The URL library\<close>

record 'u ada =
  ada_parse :: "string \<Rightarrow> 'u option"
  ada_protocol :: "'u \<Rightarrow> string"
  ada_hostname :: "'u \<Rightarrow> string"
  ada_port :: "'u \<Rightarrow> string"

text \<open>
  The WHATWG URL standard, which \<open>ada\<close> implements: a parsed URL has a scheme of
  lower-case letters, digits and \<open>+\<close>, \<open>-\<close>, \<open>.\<close>, and \<open>get_protocol\<close> is that
  scheme followed by a colon; \<open>get_port\<close> is empty or the shortest decimal form of a
  16-bit number; it is empty when the port given is the default one of a special scheme,
  which 80 is for \<open>http\<close>.
\<close>

definition scheme_char :: "char \<Rightarrow> bool" where
  "scheme_char c \<longleftrightarrow> (let n = of_char c :: nat in 97 \<le> n \<and> n \<le> 122 \<or> is_digit c)
     \<or> c \<in> {CHR ''+'', CHR ''-'', CHR ''.''}"

definition ada_schemes :: "'u ada \<Rightarrow> bool" where
  "ada_schemes A \<longleftrightarrow> (\<forall>s u. ada_parse A s = Some u \<longrightarrow>
     (\<exists>scheme. ada_protocol A u = scheme @ '':'' \<and> scheme \<noteq> [] \<and> (\<forall>c \<in> set scheme. scheme_char c)))"

definition ada_ports :: "'u ada \<Rightarrow> bool" where
  "ada_ports A \<longleftrightarrow> (\<forall>s u. ada_parse A s = Some u \<longrightarrow>
     ada_port A u = [] \<or> (\<exists>n < 2 ^ 16. ada_port A u = nat_decimal n))"

definition ada_default_ports :: "'u ada \<Rightarrow> bool" where
  "ada_default_ports A \<longleftrightarrow> (\<forall>s u. ada_parse A s = Some u \<longrightarrow>
     ada_protocol A u = ''http:'' \<longrightarrow> ada_port A u \<noteq> nat_decimal 80)"

section \<open>Logical addresses\<close>

record 'u LogicalAddress =
  la_url :: 'u
  la_protocolProvider :: ProtocolProvider

text \<open>\<open>protocol.substr(0, protocol.length() - 1)\<close>: the protocol without its colon.\<close>

definition drop_colon :: "string \<Rightarrow> string result" where
  "drop_colon protocol = substr protocol 0 (size_pred (length protocol))"

definition mk_LogicalAddress ::
  "'u ada \<Rightarrow> string \<Rightarrow> ProtocolProvider \<Rightarrow> 'u LogicalAddress result" where
  "mk_LogicalAddress A url protocolProvider =
     (case ada_parse A url of
        None \<Rightarrow> Inl (Invalid_Argument (''Invalid URL: '' @ url))
      | Some value \<Rightarrow>
          rbind (drop_colon (ada_protocol A value)) (\<lambda>protocol.
          rbind (isSupported protocolProvider protocol) (\<lambda>supported.
            if \<not> supported then Inl (Invalid_Argument (''Unsupported protocol: '' @ protocol))
            else Inr \<lparr>la_url = value, la_protocolProvider = protocolProvider\<rparr>)))"

definition createAddress :: "'u ada \<Rightarrow> ProtocolProvider \<Rightarrow> string \<Rightarrow> 'u LogicalAddress result" where
  "createAddress A this url = mk_LogicalAddress A url this"

definition getProtocol :: "'u ada \<Rightarrow> 'u LogicalAddress \<Rightarrow> string result" where
  "getProtocol A this = drop_colon (ada_protocol A (la_url this))"

definition getHost :: "'u ada \<Rightarrow> 'u LogicalAddress \<Rightarrow> string" where
  "getHost A this = ada_hostname A (la_url this)"

definition address_getProtocolDefinition ::
  "'u ada \<Rightarrow> 'u LogicalAddress \<Rightarrow> ProtocolDefinition result" where
  "address_getProtocolDefinition A this =
     rbind (getProtocol A this) (getProtocolDefinition (la_protocolProvider this))"

text \<open>The explicit port is an \<open>int\<close>, checked against the range and then returned as a \<open>uint16_t\<close>.\<close>

definition getPort :: "'u ada \<Rightarrow> 'u LogicalAddress \<Rightarrow> u16 result" where
  "getPort A this =
     (if ada_port A (la_url this) = [] then
        rbind (address_getProtocolDefinition A this) (\<lambda>d. Inr (pd_defaultPort d))
      else
        rbind (stoi (ada_port A (la_url this))) (\<lambda>port.
          if port < 0 \<or> port > 65535 then Inl (Out_Of_Range ''Port number out of range'')
          else Inr (word_of_int port)))"

section \<open>Lemmas\<close>

lemma drop_colon_eq: "drop_colon p = Inr (butlast p)"
  by (cases p) (simp_all add: drop_colon_def substr_def size_pred_def butlast_conv_take)

lemma getProtocol_eq: "getProtocol A a = Inr (butlast (ada_protocol A (la_url a)))"
  by (simp add: getProtocol_def drop_colon_eq)

lemma createAddress_Inr_iff:
  "createAddress A P url = Inr a \<longleftrightarrow>
     (\<exists>u. ada_parse A url = Some u \<and> isSupported P (butlast (ada_protocol A u)) = Inr True
        \<and> a = \<lparr>la_url = u, la_protocolProvider = P\<rparr>)"
  by (auto simp: createAddress_def mk_LogicalAddress_def drop_colon_eq rbind_eq_Inr_iff
      split: option.splits if_splits)

lemma scheme_char_not_upper: "scheme_char c \<Longrightarrow> \<not> is_upper c \<and> c \<notin> set trimmed_chars"
  by (auto simp: scheme_char_def is_upper_def trimmed_chars_def is_digit_def Let_def)

lemma ada_schemes_canonical:
  assumes "ada_schemes A" and "ada_parse A url = Some u"
  shows "canonical_name (butlast (ada_protocol A u))"
proof -
  from assms obtain scheme where "ada_protocol A u = scheme @ '':''" and ne: "scheme \<noteq> []"
    and sc: "\<forall>c \<in> set scheme. scheme_char c"
    unfolding ada_schemes_def by blast
  then have "butlast (ada_protocol A u) = scheme" by simp
  moreover have "canonical_name scheme"
    using ne sc by (auto simp: canonical_name_def scheme_char_not_upper)
  ultimately show ?thesis by simp
qed

context protocol_provider
begin

text \<open>An address made through a provider reports one of the provider's names.\<close>

lemma address_protocol_listed:
  assumes sch: "ada_schemes A" and a: "createAddress A P url = Inr a"
  shows "\<exists>d \<in> set (getSupportedProtocols P).
     getProtocol A a = Inr (pd_name d) \<and> address_getProtocolDefinition A a = Inr d"
proof -
  from a obtain u where u: "ada_parse A url = Some u" and a': "a = \<lparr>la_url = u, la_protocolProvider = P\<rparr>"
    and sup: "isSupported P (butlast (ada_protocol A u)) = Inr True"
    by (auto simp: createAddress_Inr_iff)
  from supported_found [OF sup] obtain d where d: "getProtocolDefinition P (butlast (ada_protocol A u)) = Inr d" ..
  from found_listed [OF d] have "d \<in> set (getSupportedProtocols P)"
    and n: "normalizeProtocolName (butlast (ada_protocol A u)) = Inr (pd_name d)" by auto
  moreover from n ada_schemes_canonical [OF sch u] have "butlast (ada_protocol A u) = pd_name d"
    by (simp add: normalize_of_canonical)
  ultimately show ?thesis
    using d by (auto simp: a' getProtocol_eq address_getProtocolDefinition_def)
qed

text \<open>Its port is the explicit one, or the default of its protocol; the call never throws.\<close>

lemma address_port:
  assumes sch: "ada_schemes A" and pt: "ada_ports A" and a: "createAddress A P url = Inr a"
  shows "\<exists>d \<in> set (getSupportedProtocols P). \<exists>p. getPort A a = Inr p \<and> getProtocol A a = Inr (pd_name d)
     \<and> (if ada_port A (la_url a) = [] then p = pd_defaultPort d
        else ada_port A (la_url a) = nat_decimal (unat p))"
proof -
  from address_protocol_listed [OF sch a] obtain d where d: "d \<in> set (getSupportedProtocols P)"
    "getProtocol A a = Inr (pd_name d)" "address_getProtocolDefinition A a = Inr d" by blast
  show ?thesis
  proof (cases "ada_port A (la_url a) = []")
    case True
    with d show ?thesis by (auto simp: getPort_def)
  next
    case False
    from a obtain u where "ada_parse A url = Some u" "la_url a = u"
      by (auto simp: createAddress_Inr_iff)
    with pt False obtain n where n: "n < 2 ^ 16" "ada_port A (la_url a) = nat_decimal n"
      unfolding ada_ports_def by blast
    have "getPort A a = Inr (word_of_int (int n))"
      using n by (simp add: getPort_def stoi_nat_decimal)
    moreover have "unat (word_of_int (int n) :: u16) = n"
      using n by (simp add: unat_of_nat take_bit_nat_eq_self)
    ultimately show ?thesis using d n by auto
  qed
qed

end

section \<open>A sample of the URL library\<close>

text \<open>
  What the URL library returns for the addresses of \<^verbatim>\<open>tests/iggy_protocol_provider_test.cc\<close>, for
  \<open>http://localhost:80\<close> and for the example of the documentation of
  \<open>LogicalAddress\<close>: an instance of the record on which the hypotheses above hold.
\<close>

definition sample_urls :: "(string \<times> string \<times> string \<times> string) list" where
  "sample_urls =
    [(''quic://localhost'', ''quic:'', ''localhost'', []),
     (''tcp://localhost:1234'', ''tcp:'', ''localhost'', nat_decimal 1234),
     (''tcp+tls://localhost:1234'', ''tcp+tls:'', ''localhost'', nat_decimal 1234),
     (''http://localhost'', ''http:'', ''localhost'', []),
     (''http://localhost:80'', ''http:'', ''localhost'', []),
     (''http+tls://localhost:1234'', ''http+tls:'', ''localhost'', nat_decimal 1234),
     (''iggy:quic://localhost:8080'', ''iggy:'', [], [])]"

definition sample_ada :: "(string \<times> string \<times> string) ada" where
  "sample_ada = \<lparr>ada_parse = map_of sample_urls, ada_protocol = fst,
     ada_hostname = fst \<circ> snd, ada_port = snd \<circ> snd\<rparr>"

lemma sample_parse:
  "ada_parse sample_ada s = Some u \<Longrightarrow> u \<in> snd ` set sample_urls"
  by (auto simp: sample_ada_def image_iff dest!: map_of_SomeD) force

lemma sample_table: "list_all (\<lambda>(_, p, _, _). butlast p \<noteq> [] \<and> p = butlast p @ '':''
    \<and> list_all scheme_char (butlast p)) sample_urls"
  by (simp add: sample_urls_def scheme_char_def is_digit_def)

lemma sample_schemes: "ada_schemes sample_ada"
proof -
  have "\<exists>scheme. fst u = scheme @ '':'' \<and> scheme \<noteq> [] \<and> (\<forall>c \<in> set scheme. scheme_char c)"
    if "u \<in> snd ` set sample_urls" for u
    using that sample_table by (fastforce simp: list_all_iff)
  moreover have "ada_protocol sample_ada = fst" by (simp add: sample_ada_def)
  ultimately show ?thesis unfolding ada_schemes_def using sample_parse by metis
qed

lemma sample_ports: "ada_ports sample_ada"
proof -
  have "snd (snd u) = [] \<or> (\<exists>n < 2 ^ 16. snd (snd u) = nat_decimal n)" if "u \<in> snd ` set sample_urls" for u
    using that by (auto simp: sample_urls_def)
  moreover have "ada_port sample_ada u = snd (snd u)" for u by (simp add: sample_ada_def)
  ultimately show ?thesis unfolding ada_ports_def using sample_parse by metis
qed

lemma sample_default_ports: "ada_default_ports sample_ada"
proof -
  have "fst u = ''http:'' \<longrightarrow> snd (snd u) = []" if "u \<in> snd ` set sample_urls" for u
    using that by (auto simp: sample_urls_def)
  moreover have "ada_port sample_ada u = snd (snd u)" "ada_protocol sample_ada u = fst u" for u
    by (simp_all add: sample_ada_def)
  ultimately show ?thesis
    unfolding ada_default_ports_def using sample_parse nat_decimal_nonempty by metis
qed

definition sample_address :: "string \<Rightarrow> string \<Rightarrow> string \<Rightarrow> (string \<times> string \<times> string) LogicalAddress" where
  "sample_address protocol host port =
     \<lparr>la_url = (protocol, host, port), la_protocolProvider = iggy_provider\<rparr>"

lemma sample_supported:
  "isSupported iggy_provider ''tcp'' = Inr True \<and> isSupported iggy_provider ''http'' = Inr True"
  using iggy_names_canonical
  by (simp add: iggy_provider_supported normalize_of_canonical iggy_protocols_def)

lemma sample_createAddress:
  "createAddress sample_ada iggy_provider ''tcp://localhost:1234''
     = Inr (sample_address ''tcp:'' ''localhost'' (nat_decimal 1234))"
  "createAddress sample_ada iggy_provider ''http://localhost:80''
     = Inr (sample_address ''http:'' ''localhost'' [])"
  using sample_supported
  by (simp_all add: createAddress_Inr_iff sample_ada_def sample_urls_def sample_address_def)

section \<open>Properties\<close>

text \<open>C21: creating an address for a URL has four outcomes and no other: the URL does not parse;
  the protocol name is blank; the provider does not support it; or the address holds the parsed
  URL and its provider. Every failure is a \<open>std::invalid_argument\<close>, as documented.\<close>

theorem createAddress_outcomes:
  "createAddress A iggy_provider url =
     (case ada_parse A url of
        None \<Rightarrow> Inl (Invalid_Argument (''Invalid URL: '' @ url))
      | Some u \<Rightarrow>
          (let protocol = butlast (ada_protocol A u) in
           if blank protocol then Inl (Invalid_Argument ''Protocol name cannot be empty'')
           else if trim trimmed_chars (map tolower protocol) \<in> pd_name ` set iggy_protocols
             then Inr \<lparr>la_url = u, la_protocolProvider = iggy_provider\<rparr>
           else Inl (Invalid_Argument (''Unsupported protocol: '' @ protocol))))"
  by (simp add: createAddress_def mk_LogicalAddress_def drop_colon_eq iggy_provider_supported
      normalize_eq Let_def split: option.split)

text \<open>C35: every address that creation returns reports, as documented, one of the protocols of
  the provider it was created by, and that protocol's definition.\<close>

theorem address_protocol_is_supported:
  assumes "ada_schemes A" and "createAddress A iggy_provider url = Inr a"
  shows "\<exists>d \<in> set iggy_protocols.
     getProtocol A a = Inr (pd_name d) \<and> address_getProtocolDefinition A a = Inr d"
  using iggy.address_protocol_listed [OF assms] by simp

theorem address_protocol_is_supported_witness:
  "\<exists>d \<in> set iggy_protocols.
     getProtocol sample_ada (sample_address ''tcp:'' ''localhost'' (nat_decimal 1234)) = Inr (pd_name d)
   \<and> address_getProtocolDefinition sample_ada (sample_address ''tcp:'' ''localhost'' (nat_decimal 1234)) = Inr d"
  by (rule address_protocol_is_supported [OF sample_schemes sample_createAddress(1)])

text \<open>C12: \<open>getPort\<close> never throws on an address that creation returned: neither the number
  conversion nor the range check nor the provider lookup can fail. It is the default port of the
  address's protocol when the URL has no port, and otherwise the 16-bit number the URL gives, with
  no wrap-around.\<close>

theorem getPort_total:
  assumes "ada_schemes A" and "ada_ports A" and "createAddress A iggy_provider url = Inr a"
  shows "\<exists>d \<in> set iggy_protocols. \<exists>p. getPort A a = Inr p \<and> getProtocol A a = Inr (pd_name d)
     \<and> (if ada_port A (la_url a) = [] then p = pd_defaultPort d
        else ada_port A (la_url a) = nat_decimal (unat p))"
  using iggy.address_port [OF assms] by simp

theorem getPort_total_witness:
  "getPort sample_ada (sample_address ''tcp:'' ''localhost'' (nat_decimal 1234)) = Inr 1234"
proof -
  obtain d p where g: "getPort sample_ada (sample_address ''tcp:'' ''localhost'' (nat_decimal 1234)) = Inr p"
    and p: "nat_decimal 1234 = nat_decimal (unat p)"
    using getPort_total [OF sample_schemes sample_ports sample_createAddress(1)]
    by (auto simp: sample_ada_def sample_address_def)
  from p have "unat p = 1234" by (simp only: nat_decimal_inject)
  then have "p = 1234" by (simp add: word_unat_eq_iff)
  with g show ?thesis by simp
qed

text \<open>C33: an \<open>http\<close> address can never report port 80: the URL library drops the port that is
  the default of a special scheme, and \<open>getPort\<close> then substitutes the protocol's own
  default, 3000. So \<open>http://host:80\<close> connects to port 3000.\<close>

theorem http_port_80_is_lost:
  assumes "ada_schemes A" and "ada_ports A" and "ada_default_ports A"
    and "createAddress A iggy_provider url = Inr a" and "getProtocol A a = Inr ''http''"
  shows "getPort A a \<noteq> Inr 80 \<and> (ada_port A (la_url a) = [] \<longrightarrow> getPort A a = Inr 3000)"
proof -
  from iggy.address_port [OF assms(1,2,4)] assms(5) obtain d p where
    d: "d \<in> set iggy_protocols" "pd_name d = ''http''" and p: "getPort A a = Inr p"
    and pp: "if ada_port A (la_url a) = [] then p = pd_defaultPort d
      else ada_port A (la_url a) = nat_decimal (unat p)" by auto
  from d have dp: "pd_defaultPort d = 3000" by (auto simp: iggy_protocols_def)
  from assms(4) have u: "ada_parse A url = Some (la_url a)" by (auto simp: createAddress_Inr_iff)
  with assms(1) obtain scheme where "ada_protocol A (la_url a) = scheme @ '':''"
    unfolding ada_schemes_def by blast
  with assms(5) have "ada_protocol A (la_url a) = ''http:''" by (simp add: getProtocol_eq)
  with u assms(3) have "ada_port A (la_url a) \<noteq> nat_decimal 80"
    unfolding ada_default_ports_def by blast
  with p pp dp show ?thesis by (auto split: if_splits)
qed

theorem http_port_80_is_lost_witness:
  "createAddress sample_ada iggy_provider ''http://localhost:80'' = Inr (sample_address ''http:'' ''localhost'' [])
   \<and> getPort sample_ada (sample_address ''http:'' ''localhost'' []) = Inr 3000"
  using http_port_80_is_lost [OF sample_schemes sample_ports sample_default_ports sample_createAddress(2)]
    sample_createAddress(2)
  by (simp add: getProtocol_eq sample_ada_def sample_address_def)

text \<open>The documentation of \<open>LogicalAddress\<close> gives \<open>iggy:quic://localhost:8080\<close> as
  an example, but a URL whose scheme is \<open>iggy\<close> is always refused.\<close>

theorem iggy_scheme_is_refused:
  assumes "ada_parse A url = Some u" and "ada_protocol A u = ''iggy:''"
  shows "createAddress A iggy_provider url = Inl (Invalid_Argument ''Unsupported protocol: iggy'')"
proof -
  have "canonical_name ''iggy''"
    by (simp add: canonical_name_def trimmed_chars_def is_upper_def)
  with assms show ?thesis
    by (simp add: createAddress_def mk_LogicalAddress_def drop_colon_eq iggy_provider_supported
        normalize_of_canonical iggy_protocols_def)
qed

theorem iggy_scheme_is_refused_witness:
  "createAddress sample_ada iggy_provider ''iggy:quic://localhost:8080''
     = Inl (Invalid_Argument ''Unsupported protocol: iggy'')"
  by (rule iggy_scheme_is_refused [where u = "(''iggy:'', [], [])"])
    (simp_all add: sample_ada_def sample_urls_def)

end
