(* ===== verification/Iggy_Serialization.thy ===== *)
theory Iggy_Serialization
  imports Iggy_Strings
begin

text \<open>
  \<open>convertToUTF8\<close> of \<^verbatim>\<open>sdk/serialization.cc\<close>. The \<open>utf8h\<close> library is not part of
  the sources: it is a record of the two functions called, on C strings (no NUL inside), and
  \<open>utf8_documented\<close> is what its header promises of them. The buffer that the code
  allocates with \<open>new[]\<close> is tracked in a list of the sizes of the buffers not yet freed.
\<close>

section \<open>The UTF-8 library\<close>

text \<open>
  \<open>utf8valid\<close> returns a null pointer (\<open>None\<close>) for a valid string and otherwise points at
  the first invalid byte; \<open>utf8makevalid\<close> replaces the invalid bytes in place.
\<close>

record utf8_lib =
  utf8valid :: "string \<Rightarrow> nat option"
  utf8makevalid :: "string \<Rightarrow> char \<Rightarrow> string"

definition utf8_documented :: "utf8_lib \<Rightarrow> bool" where
  "utf8_documented L \<longleftrightarrow> (\<forall>s. NUL \<notin> set s \<longrightarrow>
     NUL \<notin> set (utf8makevalid L s CHR ''?'')
       \<and> utf8valid L (utf8makevalid L s CHR ''?'') = None
       \<and> length (utf8makevalid L s CHR ''?'') \<le> length s)"

section \<open>The conversion\<close>

definition not_utf8_message :: "string \<Rightarrow> string" where
  "not_utf8_message source =
     ''The input string is not a valid UTF-8 string: '' @ [CHR 0x27] @ source @ [CHR 0x27]"

text \<open>
  \<open>snprintf(data, size + 1, "%s", source.c_str())\<close>: at most \<open>size\<close> bytes of the C
  string, then a NUL. \<open>std::string(data)\<close> reads up to the first NUL.
\<close>

definition convertToUTF8 ::
  "utf8_lib \<Rightarrow> string \<Rightarrow> bool \<Rightarrow> nat list \<Rightarrow> string result \<times> nat list" where
  "convertToUTF8 L source strict buffers =
     (if utf8valid L (c_str source) = None then (Inr source, buffers)
      else if strict then (Inl (Invalid_Argument (not_utf8_message source)), buffers)
      else
        (let buffers' = (length source + 1) # buffers;
             data = take (length source) (c_str source) @ [NUL];
             data' = utf8makevalid L (c_str data) CHR ''?'' @ [NUL]
         in (Inr (c_str data'), buffers')))"

section \<open>Lemmas\<close>

lemma take_c_str [simp]: "take (length s) (c_str s) = c_str s"
  by (simp add: length_c_str)

lemma c_str_terminated: "NUL \<notin> set s \<Longrightarrow> c_str (s @ [NUL]) = s"
  using c_str_append_NUL [of s "[]"] by simp

lemma convert_valid:
  "utf8valid L (c_str s) = None \<Longrightarrow> convertToUTF8 L s strict bs = (Inr s, bs)"
  by (simp add: convertToUTF8_def)

lemma convert_strict_invalid:
  "utf8valid L (c_str s) \<noteq> None \<Longrightarrow>
     convertToUTF8 L s True bs = (Inl (Invalid_Argument (not_utf8_message s)), bs)"
  by (simp add: convertToUTF8_def)

lemma convert_lossy_invalid:
  assumes "utf8_documented L" and "utf8valid L (c_str s) \<noteq> None"
  shows "convertToUTF8 L s False bs =
     (Inr (utf8makevalid L (c_str s) CHR ''?''), (length s + 1) # bs)"
proof -
  have "NUL \<notin> set (utf8makevalid L (c_str s) CHR ''?'')"
    using assms(1) c_str_no_NUL unfolding utf8_documented_def by blast
  with assms(2) show ?thesis
    by (simp add: convertToUTF8_def c_str_terminated c_str_no_NUL)
qed

lemma convert_buffers:
  "snd (convertToUTF8 L s False bs) =
     (if utf8valid L (c_str s) = None then bs else (length s + 1) # bs)"
  by (simp add: convertToUTF8_def Let_def)

section \<open>A library for seven-bit text\<close>

text \<open>The smallest instance that keeps the promise: the valid strings are the ASCII ones.\<close>

definition is_ascii :: "char \<Rightarrow> bool" where
  "is_ascii c \<longleftrightarrow> (of_char c :: nat) < 128"

definition ascii_lib :: utf8_lib where
  "ascii_lib =
     \<lparr>utf8valid = (\<lambda>s. if list_all is_ascii s then None else Some (length (takeWhile is_ascii s))),
      utf8makevalid = (\<lambda>s r. map (\<lambda>c. if is_ascii c then c else r) s)\<rparr>"

lemma ascii_valid: "utf8valid ascii_lib s = None \<longleftrightarrow> (\<forall>c \<in> set s. is_ascii c)"
  by (simp add: ascii_lib_def list_all_iff)

lemma ascii_makevalid_chars:
  "c \<in> set (utf8makevalid ascii_lib s r) \<Longrightarrow> c = r \<or> c \<in> set s \<and> is_ascii c"
  by (auto simp: ascii_lib_def split: if_splits)

lemma ascii_makevalid_length: "length (utf8makevalid ascii_lib s r) = length s"
  by (simp add: ascii_lib_def)

lemma ascii_lib_documented: "utf8_documented ascii_lib"
  unfolding utf8_documented_def ascii_valid ascii_makevalid_length
proof (intro allI impI conjI ballI order_refl)
  fix s assume "NUL \<notin> set s"
  moreover have "NUL \<noteq> CHR ''?''" by (simp add: NUL_def)
  ultimately show "NUL \<notin> set (utf8makevalid ascii_lib s CHR ''?'')"
    by (blast dest: ascii_makevalid_chars)
next
  fix s c assume "c \<in> set (utf8makevalid ascii_lib s CHR ''?'')"
  moreover have "is_ascii CHR ''?''" by (simp add: is_ascii_def)
  ultimately show "is_ascii c"
    by (blast dest: ascii_makevalid_chars)
qed

section \<open>Properties\<close>

text \<open>C30: a lossy conversion never throws, whatever the bytes, and is final: converting its result again, in either
  mode, returns it unchanged and allocates nothing. The result is the string itself, with all that
  follows a NUL byte in it, when the part before the first NUL is valid; otherwise it is a
  valid string without NUL and no longer than the one given, at the price of a buffer that is never freed.\<close>

theorem lossy_conversion_is_idempotent:
  assumes "utf8_documented L"
  shows "\<exists>t bs'. convertToUTF8 L s False bs = (Inr t, bs')
     \<and> (if utf8valid L (c_str s) = None then t = s \<and> bs' = bs
         else NUL \<notin> set t \<and> utf8valid L t = None \<and> length t \<le> length s \<and> bs' = (length s + 1) # bs)
     \<and> (\<forall>strict cs. convertToUTF8 L t strict cs = (Inr t, cs))"
proof (cases "utf8valid L (c_str s)")
  case None
  then show ?thesis by (auto simp: convert_valid)
next
  case (Some i)
  let ?t = "utf8makevalid L (c_str s) CHR ''?''"
  have t: "NUL \<notin> set ?t" "utf8valid L ?t = None" "length ?t \<le> length (c_str s)"
    using assms c_str_no_NUL unfolding utf8_documented_def by blast+
  then have "length ?t \<le> length s" using length_c_str [of s] by simp
  moreover have "convertToUTF8 L ?t strict cs = (Inr ?t, cs)" for strict cs
    using t by (intro convert_valid) (simp add: c_str_id)
  ultimately show ?thesis using convert_lossy_invalid [OF assms, of s bs] Some t(1,2) by simp
qed

theorem lossy_conversion_is_idempotent_witness:
  "convertToUTF8 ascii_lib (''hello '' @ [CHR 0x80] @ '' world'') False [] = (Inr ''hello ? world'', [14])
   \<and> convertToUTF8 ascii_lib ''hello ? world'' True [] = (Inr ''hello ? world'', [])"
proof -
  have e: "convertToUTF8 ascii_lib (''hello '' @ [CHR 0x80] @ '' world'') False [] = (Inr ''hello ? world'', [14])"
    by (simp add: convertToUTF8_def ascii_lib_def is_ascii_def c_str_def NUL_def)
  with lossy_conversion_is_idempotent [OF ascii_lib_documented,
      of "''hello '' @ [CHR 0x80] @ '' world''" "[]"]
  show ?thesis by (auto simp del: append_Cons append_Nil)
qed

text \<open>C40: the strict check stops at the first NUL byte: a string whose part before a NUL is
  valid passes and is returned whole, whatever bytes follow the NUL; and when that part is not
  valid, the lossy conversion drops the NUL and everything after it.\<close>

theorem check_stops_at_NUL:
  assumes "utf8_documented L" and "NUL \<notin> set p"
  shows "if utf8valid L p = None
     then convertToUTF8 L (p @ NUL # rest) True bs = (Inr (p @ NUL # rest), bs)
     else fst (convertToUTF8 L (p @ NUL # rest) False bs) = Inr (utf8makevalid L p CHR ''?'')"
  using convert_lossy_invalid [OF assms(1), of "p @ NUL # rest" bs]
  by (simp add: convert_valid c_str_append_NUL assms(2))

theorem check_stops_at_NUL_witness:
  "convertToUTF8 ascii_lib (''ok'' @ NUL # [CHR 0x80, CHR 0xFF]) True []
     = (Inr (''ok'' @ NUL # [CHR 0x80, CHR 0xFF]), [])"
  using check_stops_at_NUL [OF ascii_lib_documented, of "''ok''" "[CHR 0x80, CHR 0xFF]" "[]"]
  by (simp add: ascii_lib_def is_ascii_def NUL_def)

text \<open>The buffer of a lossy conversion is never freed: after any sequence of lossy
  conversions the bytes still allocated have grown by the size, plus one, of each string that
  was not valid.\<close>

theorem lossy_conversions_leak:
  "sum_list (foldl (\<lambda>bs s. snd (convertToUTF8 L s False bs)) bs ss) =
     sum_list bs + (\<Sum>s \<leftarrow> filter (\<lambda>s. utf8valid L (c_str s) \<noteq> None) ss. length s + 1)"
  by (induction ss arbitrary: bs) (simp_all add: convert_buffers)

end
