(* ===== verification/Iggy_Stores.thy ===== *)
theory Iggy_Stores
  imports Iggy_Prelude
begin

text \<open>
  The certificate and key stores of \<^verbatim>\<open>sdk/net/crypto/crypto.h\<close> and
  \<^verbatim>\<open>sdk/net/crypto/crypto.cc\<close> over an explicit file system. The file system is what the
  operating system answers: the working directory, the status of a path and what a stream
  opened on it delivers; it is an argument of every operation, so that it may change between
  the construction of a store and its use. Paths are POSIX paths, as strings. The contract
  that both stores meet is the locale \<open>file_store\<close>.
\<close>

section \<open>Paths and files (std::filesystem, std::ifstream)\<close>

datatype file_status = Not_Found | Regular_File | Directory | Other_File | Status_Fails

text \<open>
  A stream either does not open, or delivers bytes up to its end, or fails while read. The working
  directory cannot always be determined: it may have been removed, or its path be unreadable, and then
  \<open>current_path()\<close> throws (\<open>None\<close>).
\<close>

datatype stream = Not_Open | Delivers bytes | Read_Fails

record filesystem =
  fs_current_path :: "string option"
  fs_status :: "string \<Rightarrow> file_status"
  fs_stream :: "string \<Rightarrow> stream"

definition fs_exists :: "filesystem \<Rightarrow> string \<Rightarrow> bool result" where
  "fs_exists F p = (case fs_status F p of
     Status_Fails \<Rightarrow> Inl (Filesystem_Error p) | Not_Found \<Rightarrow> Inr False | _ \<Rightarrow> Inr True)"

definition fs_is_directory :: "filesystem \<Rightarrow> string \<Rightarrow> bool result" where
  "fs_is_directory F p = (case fs_status F p of
     Status_Fails \<Rightarrow> Inl (Filesystem_Error p) | s \<Rightarrow> Inr (s = Directory))"

definition current_path :: "filesystem \<Rightarrow> string result" where
  "current_path F = (case fs_current_path F of None \<Rightarrow> Inl (Filesystem_Error []) | Some cwd \<Rightarrow> Inr cwd)"

definition is_absolute_path :: "string \<Rightarrow> bool" where
  "is_absolute_path p \<longleftrightarrow> p \<noteq> [] \<and> hd p = CHR ''/''"

text \<open>
  \<open>operator/\<close> of \<open>std::filesystem::path\<close>: an absolute right operand replaces the left
  one; otherwise a separator is put between them unless the left one ends with one or is empty.
\<close>

definition path_div :: "string \<Rightarrow> string \<Rightarrow> string" where
  "path_div p q =
     (if is_absolute_path q then q
      else if p \<noteq> [] \<and> last p \<noteq> CHR ''/'' then p @ ''/'' @ q
      else p @ q)"

text \<open>\<open>make_preferred\<close> changes separators, of which POSIX has one.\<close>

definition make_preferred :: "string \<Rightarrow> string" where
  "make_preferred p = p"

definition absolute_path :: "filesystem \<Rightarrow> string \<Rightarrow> string result" where
  "absolute_path F p =
     (if p = [] then Inl (Filesystem_Error p)
      else if is_absolute_path p then Inr p
      else rbind (current_path F) (\<lambda>cwd. Inr (path_div cwd p)))"

section \<open>The certificate store\<close>

text \<open>
  The constructors take the working directory as the argument of \<open>value_or\<close>, which is evaluated
  before the call, so that they ask for it also when a directory is given.
\<close>

record LocalCertificateStore =
  certDir :: "string option"

definition mk_LocalCertificateStore ::
  "filesystem \<Rightarrow> string option \<Rightarrow> LocalCertificateStore result" where
  "mk_LocalCertificateStore F dir =
     rbind (current_path F) (\<lambda>cwd.
     rbind (absolute_path F (case dir of Some d \<Rightarrow> d | None \<Rightarrow> cwd)) (\<lambda>a.
       let certDirAbs = make_preferred a in
       rbind (fs_exists F certDirAbs) (\<lambda>ex.
         if \<not> ex then Inl (Invalid_Argument (''certificate directory does not exist: '' @ certDirAbs))
         else rbind (fs_is_directory F certDirAbs) (\<lambda>isd.
           if \<not> isd then
             Inl (Invalid_Argument (''certificate directory is not a valid directory: '' @ certDirAbs))
           else Inr \<lparr>certDir = Some certDirAbs\<rparr>))))"

definition getCertificate :: "filesystem \<Rightarrow> LocalCertificateStore \<Rightarrow> string \<Rightarrow> bytes result" where
  "getCertificate F this certPath =
     rbind (case certDir this of None \<Rightarrow> Inl Bad_Optional_Access | Some d \<Rightarrow> Inr d) (\<lambda>d.
       let certFile = make_preferred (path_div d certPath) in
       rbind (fs_exists F certFile) (\<lambda>ex.
         if \<not> ex then Inl (Invalid_Argument (''certificate file does not exist: '' @ certFile))
         else case fs_stream F certFile of
             Not_Open \<Rightarrow> Inl (Runtime_Error (''Failed to open certificate file: '' @ certFile))
           | Read_Fails \<Rightarrow> Inl Ios_Failure
           | Delivers certData \<Rightarrow>
               if certData = [] then
                 Inl (Runtime_Error (''Invalid certificate file (empty): '' @ certFile))
               else Inr certData))"

section \<open>The key store\<close>

record LocalKeyStore =
  privateKeyDir :: "string option"

definition mk_LocalKeyStore :: "filesystem \<Rightarrow> string option \<Rightarrow> LocalKeyStore result" where
  "mk_LocalKeyStore F dir =
     rbind (current_path F) (\<lambda>cwd.
     rbind (absolute_path F (case dir of Some d \<Rightarrow> d | None \<Rightarrow> cwd)) (\<lambda>a.
       let keyDirAbs = make_preferred a in
       rbind (fs_exists F keyDirAbs) (\<lambda>ex.
         if \<not> ex then Inl (Invalid_Argument (''key directory does not exist: '' @ keyDirAbs))
         else rbind (fs_is_directory F keyDirAbs) (\<lambda>isd.
           if \<not> isd then
             Inl (Invalid_Argument (''key directory is not a valid directory: '' @ keyDirAbs))
           else Inr \<lparr>privateKeyDir = Some keyDirAbs\<rparr>))))"

definition getPrivateKey :: "filesystem \<Rightarrow> LocalKeyStore \<Rightarrow> string \<Rightarrow> bytes result" where
  "getPrivateKey F this keyPath =
     rbind (case privateKeyDir this of None \<Rightarrow> Inl Bad_Optional_Access | Some d \<Rightarrow> Inr d) (\<lambda>d.
       let keyFile = make_preferred (path_div d keyPath) in
       rbind (fs_exists F keyFile) (\<lambda>ex.
         if \<not> ex then Inl (Invalid_Argument (''private key file does not exist: '' @ keyFile))
         else case fs_stream F keyFile of
             Not_Open \<Rightarrow> Inl (Runtime_Error (''Failed to open private key file: '' @ keyFile))
           | Read_Fails \<Rightarrow> Inl Ios_Failure
           | Delivers keyData \<Rightarrow>
               if keyData = [] then
                 Inl (Runtime_Error (''Invalid private key file (empty): '' @ keyFile))
               else Inr keyData))"

section \<open>The contract of a file store\<close>

text \<open>The kind of an exception: the exception without its message.\<close>

fun exn_kind :: "exn \<Rightarrow> exn" where
  "exn_kind (Invalid_Argument _) = Invalid_Argument []"
| "exn_kind (Runtime_Error _) = Runtime_Error []"
| "exn_kind (Out_Of_Range _) = Out_Of_Range []"
| "exn_kind (Filesystem_Error _) = Filesystem_Error []"
| "exn_kind Ios_Failure = Ios_Failure"
| "exn_kind Bad_Optional_Access = Bad_Optional_Access"

text \<open>
  The abstract specification: where the store looks, whether a directory is accepted, and what
  reading a file gives, without messages.
\<close>

definition spec_root :: "filesystem \<Rightarrow> string option \<Rightarrow> exn + string" where
  "spec_root F dir =
     (case fs_current_path F of
        None \<Rightarrow> Inl (Filesystem_Error [])
      | Some cwd \<Rightarrow>
          (let p = (case dir of Some d \<Rightarrow> d | None \<Rightarrow> cwd);
               a = (if is_absolute_path p then p else path_div cwd p)
           in if p = [] then Inl (Filesystem_Error [])
              else case fs_status F a of
                  Directory \<Rightarrow> Inr a
                | Status_Fails \<Rightarrow> Inl (Filesystem_Error [])
                | _ \<Rightarrow> Inl (Invalid_Argument [])))"

definition spec_read :: "filesystem \<Rightarrow> string \<Rightarrow> bytes result" where
  "spec_read F p =
     (case fs_status F p of
        Status_Fails \<Rightarrow> Inl (Filesystem_Error [])
      | Not_Found \<Rightarrow> Inl (Invalid_Argument [])
      | _ \<Rightarrow> (case fs_stream F p of
                Delivers data \<Rightarrow> if data = [] then Inl (Runtime_Error []) else Inr data
              | Not_Open \<Rightarrow> Inl (Runtime_Error [])
              | Read_Fails \<Rightarrow> Inl Ios_Failure))"

locale file_store =
  fixes mk :: "filesystem \<Rightarrow> string option \<Rightarrow> 'st result"
    and load :: "filesystem \<Rightarrow> 'st \<Rightarrow> string \<Rightarrow> bytes result"
    and root :: "'st \<Rightarrow> string option"
  assumes mk_spec: "map_sum exn_kind root (mk F dir) = map_sum id Some (spec_root F dir)"
    and load_spec: "root st = Some d \<Longrightarrow>
      map_sum exn_kind id (load F st p) = spec_read F (path_div d p)"
begin

lemma made_root: "mk F dir = Inr st \<Longrightarrow> \<exists>d. root st = Some d \<and> spec_root F dir = Inr d"
  using mk_spec [of F dir] by (cases "spec_root F dir") auto

text \<open>A store that was made reads as specified, on any later state of the file system.\<close>

lemma made_load:
  assumes "mk F dir = Inr st"
  shows "\<exists>d. spec_root F dir = Inr d \<and> (\<forall>F' p. map_sum exn_kind id (load F' st p) = spec_read F' (path_div d p))"
  using made_root [OF assms] load_spec by blast

lemma mk_load_refines:
  "map_sum exn_kind (\<lambda>st. map_sum exn_kind id (load F' st p)) (mk F dir)
     = map_sum id (\<lambda>d. spec_read F' (path_div d p)) (spec_root F dir)"
proof (cases "mk F dir")
  case (Inl e)
  with mk_spec [of F dir] show ?thesis by (cases "spec_root F dir") auto
next
  case (Inr st)
  with made_load [OF Inr] show ?thesis by auto
qed

lemma load_Inr:
  assumes "mk F dir = Inr st" and "load F' st p = Inr data"
  shows "data \<noteq> [] \<and> (\<exists>d. spec_root F dir = Inr d \<and> fs_stream F' (path_div d p) = Delivers data)"
proof -
  from made_load [OF assms(1)] obtain d where d: "spec_root F dir = Inr d"
    and l: "map_sum exn_kind id (load F' st p) = spec_read F' (path_div d p)" by blast
  from l assms(2) have "spec_read F' (path_div d p) = Inr data" by simp
  then show ?thesis
    using d by (auto simp: spec_read_def split: file_status.splits stream.splits if_splits)
qed

text \<open>An absolute path is read as it stands, whatever the directory of the store.\<close>

lemma load_absolute:
  assumes "mk F dir = Inr st" and "is_absolute_path p"
  shows "map_sum exn_kind id (load F' st p) = spec_read F' p"
  using made_load [OF assms(1)] assms(2) by (auto simp: path_div_def)

end

section \<open>Both stores meet it\<close>

lemmas store_defs = current_path_def absolute_path_def fs_exists_def fs_is_directory_def make_preferred_def
  spec_root_def spec_read_def

lemma mk_LocalCertificateStore_spec:
  "map_sum exn_kind certDir (mk_LocalCertificateStore F dir) = map_sum id Some (spec_root F dir)"
  by (simp add: mk_LocalCertificateStore_def store_defs Let_def split: option.split file_status.split)

lemma getCertificate_spec:
  "certDir st = Some d \<Longrightarrow> map_sum exn_kind id (getCertificate F st p) = spec_read F (path_div d p)"
  by (simp add: getCertificate_def store_defs Let_def split: file_status.split stream.split)

lemma mk_LocalKeyStore_spec:
  "map_sum exn_kind privateKeyDir (mk_LocalKeyStore F dir) = map_sum id Some (spec_root F dir)"
  by (simp add: mk_LocalKeyStore_def store_defs Let_def split: option.split file_status.split)

lemma getPrivateKey_spec:
  "privateKeyDir st = Some d \<Longrightarrow> map_sum exn_kind id (getPrivateKey F st p) = spec_read F (path_div d p)"
  by (simp add: getPrivateKey_def store_defs Let_def split: file_status.split stream.split)

interpretation certs: file_store mk_LocalCertificateStore getCertificate certDir
  by unfold_locales (rule mk_LocalCertificateStore_spec, rule getCertificate_spec)

interpretation keys: file_store mk_LocalKeyStore getPrivateKey privateKeyDir
  by unfold_locales (rule mk_LocalKeyStore_spec, rule getPrivateKey_spec)

section \<open>A sample file system\<close>

definition sample_fs :: filesystem where
  "sample_fs =
     \<lparr>fs_current_path = Some ''/home'',
      fs_status = (\<lambda>p. if p = ''/home'' \<or> p = ''/pki'' then Directory
        else if p = ''/pki/a.pem'' \<or> p = ''/etc/b.pem'' then Regular_File else Not_Found),
      fs_stream = (\<lambda>p. if p = ''/pki/a.pem'' then Delivers [1, 2] else if p = ''/etc/b.pem'' then Delivers [3]
        else Not_Open)\<rparr>"

lemma sample_stores:
  "mk_LocalCertificateStore sample_fs (Some ''/pki'') = Inr \<lparr>certDir = Some ''/pki''\<rparr>"
  "mk_LocalKeyStore sample_fs (Some ''/pki'') = Inr \<lparr>privateKeyDir = Some ''/pki''\<rparr>"
  by (simp_all add: mk_LocalCertificateStore_def mk_LocalKeyStore_def sample_fs_def store_defs
      is_absolute_path_def)

section \<open>Properties\<close>

text \<open>C6: constructing a certificate store and then reading from it refines the specification, on any
  later file system. The constructor fails with a \<open>filesystem_error\<close> when the working directory cannot
  be determined, even if a directory is given; otherwise it accepts exactly the paths that are
  directories once made absolute (the working directory by default). A certificate is the content of the
  file that the joined path names, below the store's directory for a relative name and the name itself
  for an absolute one, with a \<open>std::invalid_argument\<close> for a missing file and a
  \<open>std::runtime_error\<close> for one that does not open or is empty. The unset directory is never
  dereferenced.\<close>

theorem certificate_store_refines_spec:
  "map_sum exn_kind (\<lambda>st. map_sum exn_kind id (getCertificate F' st p)) (mk_LocalCertificateStore F dir)
     = map_sum id (\<lambda>d. spec_read F' (path_div d p)) (spec_root F dir)"
  by (rule certs.mk_load_refines)

text \<open>Neither store can be made on an existing directory, absolute or not, while the working directory
  cannot be determined.\<close>

theorem explicit_directory_needs_working_directory:
  "fs_current_path F = None \<Longrightarrow> throws (mk_LocalCertificateStore F (Some d)) \<and> throws (mk_LocalKeyStore F (Some d))"
  by (simp add: mk_LocalCertificateStore_def mk_LocalKeyStore_def current_path_def)

theorem explicit_directory_needs_working_directory_witness:
  "fs_status (sample_fs\<lparr>fs_current_path := None\<rparr>) ''/pki'' = Directory
   \<and> throws (mk_LocalCertificateStore (sample_fs\<lparr>fs_current_path := None\<rparr>) (Some ''/pki''))"
  using explicit_directory_needs_working_directory [of "sample_fs\<lparr>fs_current_path := None\<rparr>" "''/pki''"]
  by (simp add: sample_fs_def)

text \<open>A certificate that a constructed store returns is never empty, and it is byte for
  byte what the file below the store's directory holds.\<close>

theorem certificate_bytes_exact:
  assumes "mk_LocalCertificateStore F dir = Inr st" and "getCertificate F' st p = Inr data"
  shows "data \<noteq> [] \<and> (\<exists>d. certDir st = Some d \<and> fs_status F d = Directory
     \<and> fs_stream F' (path_div d p) = Delivers data)"
proof -
  from certs.made_root [OF assms(1)] obtain d where d: "certDir st = Some d" "spec_root F dir = Inr d" by blast
  then have "fs_status F d = Directory"
    by (auto simp: spec_root_def Let_def split: option.splits file_status.splits if_splits)
  with certs.load_Inr [OF assms] d show ?thesis by auto
qed

theorem certificate_bytes_exact_witness:
  "mk_LocalCertificateStore sample_fs (Some ''/pki'') = Inr \<lparr>certDir = Some ''/pki''\<rparr>
   \<and> fs_stream sample_fs (path_div ''/pki'' ''a.pem'') = Delivers [1, 2]"
proof -
  have "getCertificate sample_fs \<lparr>certDir = Some ''/pki''\<rparr> ''a.pem'' = Inr [1, 2]"
    by (simp add: getCertificate_def sample_fs_def store_defs path_div_def is_absolute_path_def)
  from certificate_bytes_exact [OF sample_stores(1) this] sample_stores(1) show ?thesis by simp
qed

text \<open>C27: the key store is the certificate store up to the wording of its messages: both
  constructors accept the same directories and fail with the same kind of exception, and on
  the same directory both read the same bytes or fail alike.\<close>

theorem key_store_equals_certificate_store:
  "map_sum exn_kind (\<lambda>st. map_sum exn_kind id (getPrivateKey F' st p)) (mk_LocalKeyStore F dir) =
   map_sum exn_kind (\<lambda>st. map_sum exn_kind id (getCertificate F' st p)) (mk_LocalCertificateStore F dir)"
  unfolding keys.mk_load_refines certs.mk_load_refines ..

text \<open>C34: the directory of a store does not confine it: with an absolute path as the name of
  the certificate or the key, any two stores, whatever directories they were made for, read the
  file at that path.\<close>

theorem absolute_names_escape_the_store:
  assumes "mk_LocalCertificateStore F dir = Inr st" and "mk_LocalKeyStore G dir' = Inr ks"
    and "is_absolute_path p"
  shows "map_sum exn_kind id (getCertificate F' st p) = spec_read F' p
     \<and> map_sum exn_kind id (getPrivateKey F' ks p) = spec_read F' p"
  using certs.load_absolute [OF assms(1,3)] keys.load_absolute [OF assms(2,3)] by simp

theorem absolute_names_escape_the_store_witness:
  "map_sum exn_kind id (getCertificate sample_fs \<lparr>certDir = Some ''/pki''\<rparr> ''/etc/b.pem'') = Inr [3]
   \<and> map_sum exn_kind id (getPrivateKey sample_fs \<lparr>privateKeyDir = Some ''/pki''\<rparr> ''/etc/b.pem'') = Inr [3]"
proof -
  have "is_absolute_path ''/etc/b.pem''" by (simp add: is_absolute_path_def)
  from absolute_names_escape_the_store [OF sample_stores(1) sample_stores(2) this, of sample_fs]
  show ?thesis by (simp add: spec_read_def sample_fs_def)
qed

end
