(* ===== verification/Iggy_Races.thy ===== *)
theory Iggy_Races
  imports Iggy_Stores
begin

text \<open>
  Reading a file while others change it. \<open>getCertificate\<close> and \<open>getPrivateKey\<close>
  (\<^verbatim>\<open>sdk/net/crypto/crypto.cc\<close>) look whether the file exists and open it afterwards; here the
  file system may be another one at the second call than at the first. What a stream opened in a file system
  delivers up to its end, \<open>fs_stream\<close>, is one answer of that file system: changes while it is read are not told apart.
\<close>

section \<open>The two functions with both moments\<close>

definition getCertificate_at ::
  "filesystem \<Rightarrow> filesystem \<Rightarrow> LocalCertificateStore \<Rightarrow> string \<Rightarrow> bytes result" where
  "getCertificate_at F1 F2 this certPath =
     rbind (case certDir this of None \<Rightarrow> Inl Bad_Optional_Access | Some d \<Rightarrow> Inr d) (\<lambda>d.
       let certFile = make_preferred (path_div d certPath) in
       rbind (fs_exists F1 certFile) (\<lambda>ex.
         if \<not> ex then Inl (Invalid_Argument (''certificate file does not exist: '' @ certFile))
         else case fs_stream F2 certFile of
             Not_Open \<Rightarrow> Inl (Runtime_Error (''Failed to open certificate file: '' @ certFile))
           | Read_Fails \<Rightarrow> Inl Ios_Failure
           | Delivers certData \<Rightarrow>
               if certData = [] then
                 Inl (Runtime_Error (''Invalid certificate file (empty): '' @ certFile))
               else Inr certData))"

definition getPrivateKey_at :: "filesystem \<Rightarrow> filesystem \<Rightarrow> LocalKeyStore \<Rightarrow> string \<Rightarrow> bytes result" where
  "getPrivateKey_at F1 F2 this keyPath =
     rbind (case privateKeyDir this of None \<Rightarrow> Inl Bad_Optional_Access | Some d \<Rightarrow> Inr d) (\<lambda>d.
       let keyFile = make_preferred (path_div d keyPath) in
       rbind (fs_exists F1 keyFile) (\<lambda>ex.
         if \<not> ex then Inl (Invalid_Argument (''private key file does not exist: '' @ keyFile))
         else case fs_stream F2 keyFile of
             Not_Open \<Rightarrow> Inl (Runtime_Error (''Failed to open private key file: '' @ keyFile))
           | Read_Fails \<Rightarrow> Inl Ios_Failure
           | Delivers keyData \<Rightarrow>
               if keyData = [] then
                 Inl (Runtime_Error (''Invalid private key file (empty): '' @ keyFile))
               else Inr keyData))"

text \<open>Without a change in between these are the functions of the stores.\<close>

lemma getCertificate_at_same: "getCertificate_at F F = getCertificate F"
  by (simp add: fun_eq_iff getCertificate_at_def getCertificate_def)

lemma getPrivateKey_at_same: "getPrivateKey_at F F = getPrivateKey F"
  by (simp add: fun_eq_iff getPrivateKey_at_def getPrivateKey_def)

section \<open>The contract of a store whose files change\<close>

definition spec_read_at :: "filesystem \<Rightarrow> filesystem \<Rightarrow> string \<Rightarrow> bytes result" where
  "spec_read_at F1 F2 p =
     (case fs_status F1 p of
        Status_Fails \<Rightarrow> Inl (Filesystem_Error [])
      | Not_Found \<Rightarrow> Inl (Invalid_Argument [])
      | _ \<Rightarrow> (case fs_stream F2 p of
                Delivers data \<Rightarrow> if data = [] then Inl (Runtime_Error []) else Inr data
              | Not_Open \<Rightarrow> Inl (Runtime_Error [])
              | Read_Fails \<Rightarrow> Inl Ios_Failure))"

text \<open>A file that can be opened has a status, and one whose status says it is missing cannot.\<close>

definition opens_what_exists :: "filesystem \<Rightarrow> bool" where
  "opens_what_exists F \<longleftrightarrow> (\<forall>p. fs_stream F p \<noteq> Not_Open \<longrightarrow> fs_status F p \<noteq> Not_Found \<and> fs_status F p \<noteq> Status_Fails)"

locale racing_store = file_store +
  fixes load_at :: "filesystem \<Rightarrow> filesystem \<Rightarrow> 'a \<Rightarrow> string \<Rightarrow> bytes result"
  assumes load_at_spec: "root st = Some d \<Longrightarrow>
      map_sum exn_kind id (load_at F1 F2 st p) = spec_read_at F1 F2 (path_div d p)"
begin

text \<open>
  Every outcome is one that a read in a single moment could have had, before or after the change, but
  for the failure to open a file that was there and is gone.
\<close>

lemma load_at_atomic:
  assumes "mk F dir = Inr st" and "opens_what_exists F2"
  shows "\<exists>d. spec_root F dir = Inr d \<and>
    (map_sum exn_kind id (load_at F1 F2 st p) = map_sum exn_kind id (load F1 st p)
   \<or> map_sum exn_kind id (load_at F1 F2 st p) = map_sum exn_kind id (load F2 st p)
   \<or> map_sum exn_kind id (load_at F1 F2 st p) = Inl (Runtime_Error [])
     \<and> fs_status F1 (path_div d p) \<noteq> Not_Found \<and> fs_stream F2 (path_div d p) = Not_Open)"
proof -
  from made_root [OF assms(1)] obtain d where d: "root st = Some d" "spec_root F dir = Inr d" by blast
  show ?thesis
    unfolding load_at_spec [OF d(1)] load_spec [OF d(1)] d(2)
    using assms(2) by (auto simp: spec_read_at_def spec_read_def opens_what_exists_def
        split: file_status.split stream.split)
qed

lemma load_at_data:
  assumes "mk F dir = Inr st" and "load_at F1 F2 st p = Inr data"
  shows "data \<noteq> [] \<and> (\<exists>d. spec_root F dir = Inr d \<and> fs_stream F2 (path_div d p) = Delivers data)"
proof -
  from made_root [OF assms(1)] obtain d where d: "root st = Some d" "spec_root F dir = Inr d" by blast
  from load_at_spec [OF d(1), of F1 F2 p] assms(2) have "spec_read_at F1 F2 (path_div d p) = Inr data" by simp
  with d show ?thesis by (auto simp: spec_read_at_def split: file_status.splits stream.splits if_splits)
qed

end

interpretation racing_certs: racing_store mk_LocalCertificateStore getCertificate certDir getCertificate_at
  by unfold_locales
    (simp add: getCertificate_at_def store_defs spec_read_at_def Let_def split: file_status.split stream.split)

interpretation racing_keys: racing_store mk_LocalKeyStore getPrivateKey privateKeyDir getPrivateKey_at
  by unfold_locales
    (simp add: getPrivateKey_at_def store_defs spec_read_at_def Let_def split: file_status.split stream.split)

section \<open>Properties\<close>

text \<open>C24: a read that others interfere with, between the check that the file exists and the opening: the
  bytes returned are exactly what the stream opened on the file delivers, and are not empty; and every outcome,
  errors included, is one that a read in a single moment gives, before the change or after it, except that
  a file that disappears in between is reported by a \<open>std::runtime_error\<close>, not as missing.\<close>

theorem racing_reads_are_atomic:
  assumes "mk_LocalCertificateStore F dir = Inr st" and "opens_what_exists F2"
  shows "\<exists>d. spec_root F dir = Inr d
     \<and> (\<forall>data. getCertificate_at F1 F2 st p = Inr data \<longrightarrow> data \<noteq> [] \<and> fs_stream F2 (path_div d p) = Delivers data)
     \<and> (map_sum exn_kind id (getCertificate_at F1 F2 st p) = map_sum exn_kind id (getCertificate F1 st p)
      \<or> map_sum exn_kind id (getCertificate_at F1 F2 st p) = map_sum exn_kind id (getCertificate F2 st p)
      \<or> map_sum exn_kind id (getCertificate_at F1 F2 st p) = Inl (Runtime_Error [])
        \<and> fs_status F1 (path_div d p) \<noteq> Not_Found \<and> fs_stream F2 (path_div d p) = Not_Open)"
  using racing_certs.load_at_atomic [OF assms, of F1 p] racing_certs.load_at_data [OF assms(1), of F1 F2 p]
  by fastforce

text \<open>The certificate is replaced in between: the new one is returned.\<close>

theorem racing_reads_are_atomic_witness:
  "getCertificate_at sample_fs (sample_fs\<lparr>fs_stream := \<lambda>q. if q = ''/pki/a.pem'' then Delivers [9] else Not_Open\<rparr>)
     \<lparr>certDir = Some ''/pki''\<rparr> ''a.pem'' = Inr [9]
   \<and> fs_stream (sample_fs\<lparr>fs_stream := \<lambda>q. if q = ''/pki/a.pem'' then Delivers [9] else Not_Open\<rparr>)
       (path_div ''/pki'' ''a.pem'') = Delivers [9]"
proof -
  let ?F = "sample_fs\<lparr>fs_stream := \<lambda>q. if q = ''/pki/a.pem'' then Delivers [9] else Not_Open\<rparr>"
  have o: "opens_what_exists ?F" by (simp add: opens_what_exists_def sample_fs_def)
  have g: "getCertificate_at sample_fs ?F \<lparr>certDir = Some ''/pki''\<rparr> ''a.pem'' = Inr [9]"
    by (simp add: getCertificate_at_def sample_fs_def store_defs path_div_def is_absolute_path_def)
  have r: "spec_root sample_fs (Some ''/pki'') = Inr ''/pki''"
    by (simp add: spec_root_def sample_fs_def is_absolute_path_def)
  from racing_reads_are_atomic [OF sample_stores(1) o, of sample_fs "''a.pem''"] r g show ?thesis
    by auto
qed

end
