(* ===== verification/Iggy_SslOptions.thy ===== *)
theory Iggy_SslOptions
  imports Iggy_Strings
begin

text \<open>
  The TLS options: \<open>PeerType\<close>, \<open>ProtocolVersion\<close> and \<open>SSLOptions\<close> of
  \<^verbatim>\<open>sdk/net/crypto/ssl.h\<close>, with the wolfSSL specializations of
  \<^verbatim>\<open>sdk/net/crypto/ssl.cc\<close>. The preprocessor conditions on the wolfSSL build are a record
  of the macros they test.
\<close>

section \<open>Data\<close>

datatype PeerType = CLIENT | SERVER

text \<open>
  The two enumerators, and the value of an enumeration variable that is neither, which only a
  cast produces and which the \<open>default\<close> branches of the code deal with.
\<close>

datatype ProtocolVersion = TLSV1_2 | TLSV1_3 | Other_Version int

definition getProtocolVersionName :: "ProtocolVersion \<Rightarrow> string result" where
  "getProtocolVersionName protocolVersion = (case protocolVersion of
     TLSV1_3 \<Rightarrow> Inr ''TLSV1_3''
   | TLSV1_2 \<Rightarrow> Inr ''TLSV1_2''
   | Other_Version i \<Rightarrow> Inl (Runtime_Error (''Unsupported protocol version code: '' @ int_decimal i)))"

text \<open>Which of the macros of the wolfSSL headers are defined.\<close>

record wolfssl_build =
  WOLFSSL_NO_TLS13 :: bool
  WOLFSSL_NO_TLS12 :: bool
  HAVE_AESGCM :: bool
  NO_AES :: bool
  WOLFSSL_SHA384 :: bool
  HAVE_CHACHA :: bool
  HAVE_POLY1305 :: bool
  HAVE_ECC :: bool
  HAVE_SUPPORTED_CURVES :: bool
  NO_RSA :: bool

section \<open>Default ciphers\<close>

text \<open>The \<open>push_back\<close> calls of the branch for TLS 1.3, each under its conditions.\<close>

definition tls13_ciphers :: "wolfssl_build \<Rightarrow> string list" where
  "tls13_ciphers B =
     (if HAVE_AESGCM B \<and> \<not> NO_AES B then
        [''TLS_AES_128_GCM_SHA256''] @
        (if WOLFSSL_SHA384 B then [''TLS_AES_256_GCM_SHA384''] else [])
      else []) @
     (if HAVE_CHACHA B \<and> HAVE_POLY1305 B then [''TLS_CHACHA20_POLY1305_SHA256''] else [])"

text \<open>The same for TLS 1.2.\<close>

definition tls12_ciphers :: "wolfssl_build \<Rightarrow> string list" where
  "tls12_ciphers B =
     (if HAVE_AESGCM B \<and> \<not> NO_AES B then
        [''TLS_ECDHE_ECDSA_WITH_AES_128_GCM_SHA256''] @
        (if \<not> NO_RSA B then [''TLS_ECDHE_RSA_WITH_AES_128_GCM_SHA256''] else []) @
        (if WOLFSSL_SHA384 B then [''TLS_ECDHE_ECDSA_WITH_AES_256_GCM_SHA384''] else []) @
        (if \<not> NO_RSA B then [''TLS_ECDHE_RSA_WITH_AES_256_GCM_SHA384''] else [])
      else []) @
     (if HAVE_CHACHA B \<and> HAVE_POLY1305 B then
        [''TLS_ECDHE_ECDSA_WITH_CHACHA20_POLY1305''] @
        (if \<not> NO_RSA B then [''TLS_ECDHE_RSA_WITH_CHACHA20_POLY1305''] else [])
      else [])"

definition getDefaultCipherList :: "wolfssl_build \<Rightarrow> ProtocolVersion \<Rightarrow> string list result" where
  "getDefaultCipherList B protocolVersion =
     rbind
       (if protocolVersion = TLSV1_3 then
          (if WOLFSSL_NO_TLS13 B then
             Inl (Runtime_Error ''TLS 1.3 is not supported by this build of WolfSSL'')
           else Inr (tls13_ciphers B))
        else if protocolVersion = TLSV1_2 then
          (if WOLFSSL_NO_TLS12 B then
             Inl (Runtime_Error ''TLS 1.2 is not supported by this build of WolfSSL'')
           else if \<not> HAVE_ECC B \<or> \<not> HAVE_SUPPORTED_CURVES B then
             Inl (Runtime_Error ''ECC + Supported Curves must be enabled to support ECDHE'')
           else Inr (tls12_ciphers B))
        else rbind (getProtocolVersionName protocolVersion) (\<lambda>protocolVersionName.
          Inl (Runtime_Error (''Unsupported protocol version: '' @ protocolVersionName))))
       (\<lambda>ciphers.
          if ciphers = [] then
            rbind (getProtocolVersionName protocolVersion) (\<lambda>protocolVersionName.
              Inl (Runtime_Error
                (''No ciphers available for the specified protocol version: '' @ protocolVersionName)))
          else Inr ciphers)"

section \<open>The options\<close>

text \<open>The private members; their selectors are the getters of the class.\<close>

record SSLOptions =
  peerType :: PeerType
  peerCertPath :: "string option"
  minimumSupportedProtocolVersion :: ProtocolVersion
  ciphers :: "string list"

text \<open>The constructor; the initializer of \<open>ciphers\<close> may throw.\<close>

definition mk_SSLOptions :: "wolfssl_build \<Rightarrow> PeerType \<Rightarrow> SSLOptions result" where
  "mk_SSLOptions B peer = rbind (getDefaultCipherList B TLSV1_3) (\<lambda>cs.
     Inr \<lparr>peerType = peer, peerCertPath = None, minimumSupportedProtocolVersion = TLSV1_3, ciphers = cs\<rparr>)"

definition setPeerType :: "PeerType \<Rightarrow> SSLOptions \<Rightarrow> SSLOptions" where
  "setPeerType peer this = this\<lparr>peerType := peer\<rparr>"

definition setPeerCertificatePath :: "string \<Rightarrow> SSLOptions \<Rightarrow> SSLOptions" where
  "setPeerCertificatePath path this = this\<lparr>peerCertPath := Some path\<rparr>"

definition setMinimumSupportedProtocolVersion :: "ProtocolVersion \<Rightarrow> SSLOptions \<Rightarrow> SSLOptions" where
  "setMinimumSupportedProtocolVersion v this = this\<lparr>minimumSupportedProtocolVersion := v\<rparr>"

definition setCiphers :: "string list \<Rightarrow> SSLOptions \<Rightarrow> SSLOptions" where
  "setCiphers cs this = this\<lparr>ciphers := cs\<rparr>"

definition ssl_validate :: "bool \<Rightarrow> SSLOptions \<Rightarrow> unit result" where
  "ssl_validate strict this =
     (if strict \<and> minimumSupportedProtocolVersion this \<noteq> TLSV1_3 then
        Inl (Runtime_Error ''Only TLS 1.3 is supported in strict mode'')
      else if peerType this = SERVER \<and> peerCertPath this = None then
        Inl (Runtime_Error ''Server mode requires a peer certificate path'')
      else Inr ())"

text \<open>\<open>configure\<close> of the wolfSSL specialization is a TODO with an empty body.\<close>

definition SSLOptions_configure :: "SSLOptions \<Rightarrow> 'w \<Rightarrow> 'w" where
  "SSLOptions_configure this ctx = ctx"

lemmas option_setters = setPeerType_def setPeerCertificatePath_def
  setMinimumSupportedProtocolVersion_def setCiphers_def

section \<open>Lemmas\<close>

text \<open>A cipher name as the documentation has it: upper-case letters, digits and underscores.\<close>

definition cipher_char :: "char \<Rightarrow> bool" where
  "cipher_char c \<longleftrightarrow> is_upper c \<or> is_digit c \<or> c = CHR ''_''"

definition all_tls13 :: "string list" where
  "all_tls13 = [''TLS_AES_128_GCM_SHA256'', ''TLS_AES_256_GCM_SHA384'', ''TLS_CHACHA20_POLY1305_SHA256'']"

definition all_tls12 :: "string list" where
  "all_tls12 = [''TLS_ECDHE_ECDSA_WITH_AES_128_GCM_SHA256'', ''TLS_ECDHE_RSA_WITH_AES_128_GCM_SHA256'',
     ''TLS_ECDHE_ECDSA_WITH_AES_256_GCM_SHA384'', ''TLS_ECDHE_RSA_WITH_AES_256_GCM_SHA384'',
     ''TLS_ECDHE_ECDSA_WITH_CHACHA20_POLY1305'', ''TLS_ECDHE_RSA_WITH_CHACHA20_POLY1305'']"

lemma cipher_names: "list_all (list_all cipher_char) (all_tls13 @ all_tls12)"
  by (simp add: all_tls13_def all_tls12_def cipher_char_def is_upper_def is_digit_def)

lemma cipher_names_distinct: "distinct (all_tls13 @ all_tls12)"
  by (simp add: all_tls13_def all_tls12_def)

lemma tls13_ciphers_subset: "set (tls13_ciphers B) \<subseteq> set all_tls13"
  by (cases "HAVE_AESGCM B"; cases "NO_AES B"; cases "NO_RSA B"; cases "WOLFSSL_SHA384 B";
      cases "HAVE_CHACHA B"; cases "HAVE_POLY1305 B"; simp add: tls13_ciphers_def all_tls13_def)

lemma tls12_ciphers_subset: "set (tls12_ciphers B) \<subseteq> set all_tls12"
  by (cases "HAVE_AESGCM B"; cases "NO_AES B"; cases "NO_RSA B"; cases "WOLFSSL_SHA384 B";
      cases "HAVE_CHACHA B"; cases "HAVE_POLY1305 B"; simp add: tls12_ciphers_def all_tls12_def)

lemma ciphers_distinct: "distinct (tls13_ciphers B) \<and> distinct (tls12_ciphers B)"
  by (cases "HAVE_AESGCM B"; cases "NO_AES B"; cases "NO_RSA B"; cases "WOLFSSL_SHA384 B";
      cases "HAVE_CHACHA B"; cases "HAVE_POLY1305 B"; simp add: tls13_ciphers_def tls12_ciphers_def)

lemma getDefaultCipherList_Inr:
  "getDefaultCipherList B v = Inr cs \<longleftrightarrow>
     cs \<noteq> [] \<and> (v = TLSV1_3 \<and> \<not> WOLFSSL_NO_TLS13 B \<and> cs = tls13_ciphers B
       \<or> v = TLSV1_2 \<and> \<not> WOLFSSL_NO_TLS12 B \<and> HAVE_ECC B \<and> HAVE_SUPPORTED_CURVES B \<and> cs = tls12_ciphers B)"
  by (cases v) (auto simp: getDefaultCipherList_def rbind_eq_Inr_iff getProtocolVersionName_def)

lemma mk_SSLOptions_Inr:
  "mk_SSLOptions B peer = Inr this \<Longrightarrow>
     this = \<lparr>peerType = peer, peerCertPath = None, minimumSupportedProtocolVersion = TLSV1_3,
             ciphers = tls13_ciphers B\<rparr> \<and> tls13_ciphers B \<noteq> []"
  by (auto simp: mk_SSLOptions_def rbind_eq_Inr_iff getDefaultCipherList_Inr)

lemma ssl_validate_Inr:
  "ssl_validate strict this = Inr () \<longleftrightarrow>
     (strict \<longrightarrow> minimumSupportedProtocolVersion this = TLSV1_3)
   \<and> (peerType this = SERVER \<longrightarrow> peerCertPath this \<noteq> None)"
  by (simp add: ssl_validate_def)

text \<open>The build that \<^verbatim>\<open>CMakeLists.txt\<close> configures, as the tests require it.\<close>

definition full_build :: wolfssl_build where
  "full_build = \<lparr>WOLFSSL_NO_TLS13 = False, WOLFSSL_NO_TLS12 = False, HAVE_AESGCM = True, NO_AES = False,
     WOLFSSL_SHA384 = True, HAVE_CHACHA = True, HAVE_POLY1305 = True, HAVE_ECC = True,
     HAVE_SUPPORTED_CURVES = True, NO_RSA = False\<rparr>"

section \<open>Properties\<close>

text \<open>C29: a default cipher list is returned only in a build that has the version, with what it
  requires, and whenever such a build enables any of its suites; the list is not empty, has no
  duplicates and holds only suites of that version, each an upper-case name as documented; a value outside the enumeration always throws with its code, so
  the message that would name an unsupported version is never produced.\<close>

theorem default_ciphers_wellformed:
  "case v of
     Other_Version i \<Rightarrow> getDefaultCipherList B v
       = Inl (Runtime_Error (''Unsupported protocol version code: '' @ int_decimal i))
   | _ \<Rightarrow> (case getDefaultCipherList B v of
       Inr cs \<Rightarrow> cs \<noteq> [] \<and> distinct cs \<and> list_all (list_all cipher_char) cs
         \<and> set cs \<subseteq> set (if v = TLSV1_3 then all_tls13 else all_tls12)
         \<and> (if v = TLSV1_3 then \<not> WOLFSSL_NO_TLS13 B
              else \<not> WOLFSSL_NO_TLS12 B \<and> HAVE_ECC B \<and> HAVE_SUPPORTED_CURVES B)
     | Inl _ \<Rightarrow> (if v = TLSV1_3 then WOLFSSL_NO_TLS13 B \<or> tls13_ciphers B = []
         else WOLFSSL_NO_TLS12 B \<or> \<not> HAVE_ECC B \<or> \<not> HAVE_SUPPORTED_CURVES B \<or> tls12_ciphers B = []))"
proof -
  have ok: "list_all (list_all cipher_char) cs" if "set cs \<subseteq> set all_tls13 \<or> set cs \<subseteq> set all_tls12" for cs
    using that cipher_names by (auto simp: list_all_iff subset_iff)
  show ?thesis
  proof (cases v)
    case (Other_Version i)
    then show ?thesis by (simp add: getDefaultCipherList_def getProtocolVersionName_def)
  next
    case TLSV1_2
    then show ?thesis
      using ok tls12_ciphers_subset [of B] ciphers_distinct [of B]
      by (auto simp: getDefaultCipherList_def getProtocolVersionName_def)
  next
    case TLSV1_3
    then show ?thesis
      using ok tls13_ciphers_subset [of B] ciphers_distinct [of B]
      by (simp add: getDefaultCipherList_def getProtocolVersionName_def)
  qed
qed

theorem default_ciphers_wellformed_witness:
  "getDefaultCipherList full_build TLSV1_3 = Inr all_tls13
   \<and> list_all (list_all cipher_char) all_tls13 \<and> distinct all_tls13"
proof -
  have e: "getDefaultCipherList full_build TLSV1_3 = Inr all_tls13"
    by (simp add: getDefaultCipherList_Inr full_build_def tls13_ciphers_def all_tls13_def)
  with default_ciphers_wellformed [of TLSV1_3 full_build] show ?thesis by simp
qed

text \<open>A build of wolfSSL without SHA-384 still gets a SHA-384 suite by default: for TLS 1.2
  the condition on \<open>WOLFSSL_SHA384\<close> guards the ECDSA suite only, and the RSA suite with
  AES-256-GCM and SHA-384 is in the list of every build that has RSA and AES-GCM.\<close>

theorem sha384_suite_without_sha384:
  assumes "getDefaultCipherList B TLSV1_2 = Inr cs"
    and "HAVE_AESGCM B" and "\<not> NO_AES B" and "\<not> NO_RSA B"
  shows "''TLS_ECDHE_RSA_WITH_AES_256_GCM_SHA384'' \<in> set cs
     \<and> (''TLS_ECDHE_ECDSA_WITH_AES_256_GCM_SHA384'' \<in> set cs \<longleftrightarrow> WOLFSSL_SHA384 B)"
  using assms by (auto simp: getDefaultCipherList_Inr tls12_ciphers_def)

theorem sha384_suite_without_sha384_witness:
  "\<not> WOLFSSL_SHA384 (full_build\<lparr>WOLFSSL_SHA384 := False\<rparr>)
   \<and> ''TLS_ECDHE_RSA_WITH_AES_256_GCM_SHA384'' \<in> set (tls12_ciphers (full_build\<lparr>WOLFSSL_SHA384 := False\<rparr>))"
proof -
  let ?B = "full_build\<lparr>WOLFSSL_SHA384 := False\<rparr>"
  have "getDefaultCipherList ?B TLSV1_2 = Inr (tls12_ciphers ?B)"
    by (simp add: getDefaultCipherList_Inr tls12_ciphers_def full_build_def)
  from sha384_suite_without_sha384 [OF this] show ?thesis
    by (simp add: full_build_def)
qed

text \<open>What \<open>validate\<close> accepts along the settings that the tests go through: fresh options are
  valid for a client and not for a server; with a certificate path they are valid for both; and
  lowering the version to TLS 1.2 is refused in strict mode only, whatever the peer type.\<close>

theorem validate_default_options:
  assumes "mk_SSLOptions B peer = Inr this"
  shows "ssl_validate strict this = (if peer = SERVER
       then Inl (Runtime_Error ''Server mode requires a peer certificate path'') else Inr ())
   \<and> ssl_validate strict (setPeerCertificatePath p (setPeerType peer' this)) = Inr ()
   \<and> ssl_validate strict (setMinimumSupportedProtocolVersion TLSV1_2 (setPeerCertificatePath p (setPeerType peer' this)))
     = (if strict then Inl (Runtime_Error ''Only TLS 1.3 is supported in strict mode'') else Inr ())"
  using mk_SSLOptions_Inr [OF assms] by (simp add: ssl_validate_def option_setters)

theorem validate_default_options_witness:
  "ssl_validate True \<lparr>peerType = SERVER, peerCertPath = None, minimumSupportedProtocolVersion = TLSV1_3,
      ciphers = all_tls13\<rparr> = Inl (Runtime_Error ''Server mode requires a peer certificate path'')"
proof -
  have "mk_SSLOptions full_build SERVER = Inr \<lparr>peerType = SERVER, peerCertPath = None,
      minimumSupportedProtocolVersion = TLSV1_3, ciphers = all_tls13\<rparr>"
    by (simp add: mk_SSLOptions_def getDefaultCipherList_def full_build_def tls13_ciphers_def all_tls13_def)
  from validate_default_options [OF this, of True] show ?thesis by simp
qed

text \<open>Lowering the minimum version to TLS 1.2 leaves the cipher list of TLS 1.3 in place, and in
  every build that list has no suite in common with the default list for TLS 1.2; yet the options
  are valid in non-strict mode.\<close>

theorem lowered_version_keeps_tls13_ciphers:
  assumes "mk_SSLOptions B CLIENT = Inr this" and "getDefaultCipherList B' TLSV1_2 = Inr cs"
  shows "set (ciphers (setMinimumSupportedProtocolVersion TLSV1_2 this)) \<inter> set cs = {}
     \<and> ciphers (setMinimumSupportedProtocolVersion TLSV1_2 this) \<noteq> []
     \<and> ssl_validate False (setMinimumSupportedProtocolVersion TLSV1_2 this) = Inr ()"
proof -
  note this_eq = mk_SSLOptions_Inr [OF assms(1)]
  have "set all_tls13 \<inter> set all_tls12 = {}"
    using cipher_names_distinct by simp
  then have "set (tls13_ciphers B) \<inter> set cs = {}"
    using tls13_ciphers_subset [of B] tls12_ciphers_subset [of B'] assms(2)
    by (auto simp: getDefaultCipherList_Inr)
  with this_eq show ?thesis by (simp add: ssl_validate_def option_setters)
qed

theorem lowered_version_keeps_tls13_ciphers_witness:
  "set all_tls13 \<inter> set all_tls12 = {}"
proof -
  have "mk_SSLOptions full_build CLIENT = Inr \<lparr>peerType = CLIENT, peerCertPath = None,
      minimumSupportedProtocolVersion = TLSV1_3, ciphers = all_tls13\<rparr>"
    and "getDefaultCipherList full_build TLSV1_2 = Inr all_tls12"
    by (simp_all add: mk_SSLOptions_def getDefaultCipherList_def full_build_def
        tls13_ciphers_def all_tls13_def tls12_ciphers_def all_tls12_def)
  from lowered_version_keeps_tls13_ciphers [OF this] show ?thesis
    by (simp add: setMinimumSupportedProtocolVersion_def)
qed

end
