(* ===== verification/Iggy_Pki.thy ===== *)
theory Iggy_Pki
  imports Iggy_Stores
begin

text \<open>
  The PKI configuration objects of \<^verbatim>\<open>sdk/net/crypto/crypto.h\<close>: revocation methods,
  certificate authorities and \<open>PKIEnvironment\<close>, which holds references. What its setters do
  depends on which objects are shared, so the objects live in an explicit store: maps from
  addresses to objects, with the function-local static instances of the \<open>getDefault\<close>
  functions. Programs may delete the objects they made; the pointer of an authority to its revocation
  method may be null. URLs are values of the URL library, of type \<open>'u\<close>.
\<close>

section \<open>Objects and the store\<close>

type_synonym addr = nat

text \<open>The encodings of \<open>enum CertificateFormat\<close>; no store reads or returns them.\<close>

datatype CertificateFormat = PEM | ASN1

primrec CertificateFormat_value :: "CertificateFormat \<Rightarrow> int" where
  "CertificateFormat_value PEM = 1"
| "CertificateFormat_value ASN1 = 2"

text \<open>
  \<open>class CRL\<close> and \<open>class OCSP\<close>, the two subclasses of \<open>RevocationMethod\<close>, with
  their fields; the default arguments are in \<open>default_CRL\<close> and \<open>default_OCSP\<close>.
\<close>

datatype 'u RevocationMethod =
    CRL (getCrlPath: "string option") (getCrlUrl: "'u option")
  | OCSP (getOcspOverrideUrl: "'u option") (isStaplingEnabled: bool)

definition default_CRL :: "'u RevocationMethod" where
  "default_CRL = CRL None None"

definition default_OCSP :: "'u RevocationMethod" where
  "default_OCSP = OCSP None True"

record CertificateAuthority =
  overrideCaCertificatePath :: "string option"
  trustedPeerCertificatePaths :: "string list"
  revocationMethod :: "addr option"

text \<open>
  A \<open>CertificateStore&\<close> refers to an object of a subclass: the local store or one the user
  of the library wrote, of which only the overridden function is known. Likewise for keys.
\<close>

datatype certificate_store =
    Local_Certificates LocalCertificateStore
  | Custom_Certificates "filesystem \<Rightarrow> string \<Rightarrow> bytes result"

datatype key_store =
    Local_Keys LocalKeyStore
  | Custom_Keys "filesystem \<Rightarrow> string \<Rightarrow> bytes result"

fun virtual_getCertificate :: "filesystem \<Rightarrow> certificate_store \<Rightarrow> string \<Rightarrow> bytes result" where
  "virtual_getCertificate F (Local_Certificates st) p = getCertificate F st p"
| "virtual_getCertificate F (Custom_Certificates f) p = f F p"

fun virtual_getPrivateKey :: "filesystem \<Rightarrow> key_store \<Rightarrow> string \<Rightarrow> bytes result" where
  "virtual_getPrivateKey F (Local_Keys st) p = getPrivateKey F st p"
| "virtual_getPrivateKey F (Custom_Keys f) p = f F p"

record 'u heap =
  revocations :: "addr \<rightharpoonup> 'u RevocationMethod"
  authorities :: "addr \<rightharpoonup> CertificateAuthority"
  certificate_stores :: "addr \<rightharpoonup> certificate_store"
  key_stores :: "addr \<rightharpoonup> key_store"
  next_addr :: addr
  default_authority :: "addr option"
  default_certificates :: "addr option"
  default_keys :: "addr option"

definition empty_heap :: "'u heap" where
  "empty_heap = \<lparr>revocations = Map.empty, authorities = Map.empty, certificate_stores = Map.empty,
     key_stores = Map.empty, next_addr = 0, default_authority = None, default_certificates = None,
     default_keys = None\<rparr>"

definition new_revocation :: "'u RevocationMethod \<Rightarrow> 'u heap \<Rightarrow> addr \<times> 'u heap" where
  "new_revocation r h = (next_addr h,
     h\<lparr>revocations := (revocations h)(next_addr h \<mapsto> r), next_addr := Suc (next_addr h)\<rparr>)"

definition new_authority :: "CertificateAuthority \<Rightarrow> 'u heap \<Rightarrow> addr \<times> 'u heap" where
  "new_authority a h = (next_addr h,
     h\<lparr>authorities := (authorities h)(next_addr h \<mapsto> a), next_addr := Suc (next_addr h)\<rparr>)"

definition new_certificate_store :: "certificate_store \<Rightarrow> 'u heap \<Rightarrow> addr \<times> 'u heap" where
  "new_certificate_store st h = (next_addr h,
     h\<lparr>certificate_stores := (certificate_stores h)(next_addr h \<mapsto> st), next_addr := Suc (next_addr h)\<rparr>)"

definition new_key_store :: "key_store \<Rightarrow> 'u heap \<Rightarrow> addr \<times> 'u heap" where
  "new_key_store st h = (next_addr h,
     h\<lparr>key_stores := (key_stores h)(next_addr h \<mapsto> st), next_addr := Suc (next_addr h)\<rparr>)"

section \<open>Certificate authorities\<close>

text \<open>
  The constructor. Its second argument is a pointer, \<open>None\<close> when it is null; when it is left out, it is a new
  default \<open>OCSP\<close>. The class copies the pointer and never deletes what it points to.
\<close>

definition mk_CertificateAuthority ::
  "string option \<Rightarrow> addr option option \<Rightarrow> 'u heap \<Rightarrow> addr \<times> 'u heap" where
  "mk_CertificateAuthority caPath revMethod h =
     (case (case revMethod of Some p \<Rightarrow> (p, h)
        | None \<Rightarrow> (case new_revocation default_OCSP h of (r, h1) \<Rightarrow> (Some r, h1))) of
        (p, h1) \<Rightarrow> new_authority \<lparr>overrideCaCertificatePath = caPath,
          trustedPeerCertificatePaths = [], revocationMethod = p\<rparr> h1)"

definition authority_getDefault :: "'u heap \<Rightarrow> addr \<times> 'u heap" where
  "authority_getDefault h =
     (case default_authority h of
        Some a \<Rightarrow> (a, h)
      | None \<Rightarrow> (case mk_CertificateAuthority None None h of
          (a, h1) \<Rightarrow> (a, h1\<lparr>default_authority := Some a\<rparr>)))"

definition addTrustedPeerCertificate :: "addr \<Rightarrow> string \<Rightarrow> 'u heap \<Rightarrow> 'u heap" where
  "addTrustedPeerCertificate this certPath h =
     h\<lparr>authorities := (authorities h)(this := map_option
        (\<lambda>ca. ca\<lparr>trustedPeerCertificatePaths := trustedPeerCertificatePaths ca @ [certPath]\<rparr>)
        (authorities h this))\<rparr>"

section \<open>Default stores\<close>

text \<open>The static instance is constructed on the first call; when its constructor throws, it stays unset.\<close>

definition certificates_getDefault :: "filesystem \<Rightarrow> 'u heap \<Rightarrow> addr result \<times> 'u heap" where
  "certificates_getDefault F h =
     (case default_certificates h of
        Some a \<Rightarrow> (Inr a, h)
      | None \<Rightarrow> (case mk_LocalCertificateStore F None of
          Inl e \<Rightarrow> (Inl e, h)
        | Inr st \<Rightarrow> (case new_certificate_store (Local_Certificates st) h of
            (a, h1) \<Rightarrow> (Inr a, h1\<lparr>default_certificates := Some a\<rparr>))))"

definition keys_getDefault :: "filesystem \<Rightarrow> 'u heap \<Rightarrow> addr result \<times> 'u heap" where
  "keys_getDefault F h =
     (case default_keys h of
        Some a \<Rightarrow> (Inr a, h)
      | None \<Rightarrow> (case mk_LocalKeyStore F None of
          Inl e \<Rightarrow> (Inl e, h)
        | Inr st \<Rightarrow> (case new_key_store (Local_Keys st) h of
            (a, h1) \<Rightarrow> (Inr a, h1\<lparr>default_keys := Some a\<rparr>))))"

section \<open>The PKI environment\<close>

record PKIEnvironment =
  certAuth :: addr
  certStore :: addr
  keyStore :: addr

subsection \<open>The default arguments\<close>

text \<open>The static instances of the three \<open>getDefault\<close> functions.\<close>

datatype static_var = Authority_Instance | Certificates_Instance | Keys_Instance

primrec instance_of :: "'u heap \<Rightarrow> static_var \<Rightarrow> addr option" where
  "instance_of h Authority_Instance = default_authority h"
| "instance_of h Certificates_Instance = default_certificates h"
| "instance_of h Keys_Instance = default_keys h"

primrec getDefault :: "filesystem \<Rightarrow> static_var \<Rightarrow> 'u heap \<Rightarrow> addr result \<times> 'u heap" where
  "getDefault F Authority_Instance h = (case authority_getDefault h of (a, h1) \<Rightarrow> (Inr a, h1))"
| "getDefault F Certificates_Instance h = certificates_getDefault F h"
| "getDefault F Keys_Instance h = keys_getDefault F h"

text \<open>
  The language leaves the order open in which the arguments of a call are evaluated; an exception in one of
  them ends the evaluation.
\<close>

datatype argument_order = Order_ACK | Order_AKC | Order_CAK | Order_CKA | Order_KAC | Order_KCA

primrec order_of :: "argument_order \<Rightarrow> static_var list" where
  "order_of Order_ACK = [Authority_Instance, Certificates_Instance, Keys_Instance]"
| "order_of Order_AKC = [Authority_Instance, Keys_Instance, Certificates_Instance]"
| "order_of Order_CAK = [Certificates_Instance, Authority_Instance, Keys_Instance]"
| "order_of Order_CKA = [Certificates_Instance, Keys_Instance, Authority_Instance]"
| "order_of Order_KAC = [Keys_Instance, Authority_Instance, Certificates_Instance]"
| "order_of Order_KCA = [Keys_Instance, Certificates_Instance, Authority_Instance]"

fun passed :: "addr option \<Rightarrow> addr option \<Rightarrow> addr option \<Rightarrow> static_var \<Rightarrow> addr option" where
  "passed auth certs keys Authority_Instance = auth"
| "passed auth certs keys Certificates_Instance = certs"
| "passed auth certs keys Keys_Instance = keys"

primrec eval_arguments ::
  "filesystem \<Rightarrow> (static_var \<Rightarrow> addr option) \<Rightarrow> static_var list \<Rightarrow> (static_var \<rightharpoonup> addr) \<Rightarrow> 'u heap
     \<Rightarrow> (static_var \<rightharpoonup> addr) result \<times> 'u heap" where
  "eval_arguments F given [] args h = (Inr args, h)"
| "eval_arguments F given (x # xs) args h =
     (case (case given x of Some a \<Rightarrow> (Inr a, h) | None \<Rightarrow> getDefault F x h) of
        (Inl e, h1) \<Rightarrow> (Inl e, h1)
      | (Inr a, h1) \<Rightarrow> eval_arguments F given xs (args(x \<mapsto> a)) h1)"

text \<open>The environment, once all arguments are there.\<close>

definition assemble :: "(static_var \<rightharpoonup> addr) \<Rightarrow> PKIEnvironment option" where
  "assemble args = (case (args Authority_Instance, args Certificates_Instance, args Keys_Instance) of
     (Some a, Some c, Some k) \<Rightarrow> Some \<lparr>certAuth = a, certStore = c, keyStore = k\<rparr>
   | _ \<Rightarrow> None)"

text \<open>The constructor; an argument left out is the default instance of its class.\<close>

definition mk_PKIEnvironment ::
  "filesystem \<Rightarrow> argument_order \<Rightarrow> addr option \<Rightarrow> addr option \<Rightarrow> addr option \<Rightarrow> 'u heap
     \<Rightarrow> PKIEnvironment result \<times> 'u heap" where
  "mk_PKIEnvironment F ord auth certs keys h =
     (case eval_arguments F (passed auth certs keys) (order_of ord) Map.empty h of
        (Inl e, h1) \<Rightarrow> (Inl e, h1)
      | (Inr args, h1) \<Rightarrow> (Inr (the (assemble args)), h1))"

definition getCertificateAuthority :: "PKIEnvironment \<Rightarrow> 'u heap \<Rightarrow> CertificateAuthority option" where
  "getCertificateAuthority this h = authorities h (certAuth this)"

definition getCertificateStore :: "PKIEnvironment \<Rightarrow> 'u heap \<Rightarrow> certificate_store option" where
  "getCertificateStore this h = certificate_stores h (certStore this)"

definition getKeyStore :: "PKIEnvironment \<Rightarrow> 'u heap \<Rightarrow> key_store option" where
  "getKeyStore this h = key_stores h (keyStore this)"

text \<open>
  The setters assign through a reference member: \<open>this->certAuth = certAuth\<close> is the copy
  assignment of the class \<open>CertificateAuthority\<close> to the object referred to. For the stores
  it is the copy assignment of the abstract base class, which has no members: the derived part
  of the target, its directory or its overriding function, is not assigned.
\<close>

definition setCertificateAuthority :: "PKIEnvironment \<Rightarrow> addr \<Rightarrow> 'u heap \<Rightarrow> 'u heap" where
  "setCertificateAuthority this auth h =
     h\<lparr>authorities := (authorities h)(certAuth this := authorities h auth)\<rparr>"

definition assign_CertificateStore_base :: "certificate_store \<Rightarrow> certificate_store \<Rightarrow> certificate_store" where
  "assign_CertificateStore_base target source = target"

definition assign_KeyStore_base :: "key_store \<Rightarrow> key_store \<Rightarrow> key_store" where
  "assign_KeyStore_base target source = target"

definition setCertificateStore :: "PKIEnvironment \<Rightarrow> addr \<Rightarrow> 'u heap \<Rightarrow> 'u heap" where
  "setCertificateStore this st h =
     (case (certificate_stores h (certStore this), certificate_stores h st) of
        (Some target, Some source) \<Rightarrow>
          h\<lparr>certificate_stores := (certificate_stores h)
             (certStore this \<mapsto> assign_CertificateStore_base target source)\<rparr>
      | _ \<Rightarrow> h)"

definition setKeyStore :: "PKIEnvironment \<Rightarrow> addr \<Rightarrow> 'u heap \<Rightarrow> 'u heap" where
  "setKeyStore this st h =
     (case (key_stores h (keyStore this), key_stores h st) of
        (Some target, Some source) \<Rightarrow>
          h\<lparr>key_stores := (key_stores h)(keyStore this \<mapsto> assign_KeyStore_base target source)\<rparr>
      | _ \<Rightarrow> h)"

text \<open>
  \<open>configure\<close> walks to the authority; the bodies of the three wolfSSL specializations are
  empty. The state \<open>'w\<close> is that of the context handle.
\<close>

definition CRL_configure :: "'w \<Rightarrow> 'w" where "CRL_configure ctx = ctx"
definition OCSP_configure :: "'w \<Rightarrow> 'w" where "OCSP_configure ctx = ctx"
definition CertificateAuthority_configure :: "'w \<Rightarrow> 'w" where "CertificateAuthority_configure ctx = ctx"

definition PKIEnvironment_configure :: "PKIEnvironment \<Rightarrow> 'w \<Rightarrow> 'w" where
  "PKIEnvironment_configure this ctx = CertificateAuthority_configure ctx"

section \<open>The store stays well formed\<close>

text \<open>Every address in use is below the next free one, and every static instance exists.\<close>

definition heap_ok :: "'u heap \<Rightarrow> bool" where
  "heap_ok h \<longleftrightarrow>
     (\<forall>a. next_addr h \<le> a \<longrightarrow> revocations h a = None \<and> authorities h a = None
          \<and> certificate_stores h a = None \<and> key_stores h a = None)
   \<and> (\<forall>a. default_authority h = Some a \<longrightarrow> authorities h a \<noteq> None)
   \<and> (\<forall>a. default_certificates h = Some a \<longrightarrow> certificate_stores h a \<noteq> None)
   \<and> (\<forall>a. default_keys h = Some a \<longrightarrow> key_stores h a \<noteq> None)"

definition env_ok :: "'u heap \<Rightarrow> PKIEnvironment \<Rightarrow> bool" where
  "env_ok h e \<longleftrightarrow> authorities h (certAuth e) \<noteq> None
     \<and> certificate_stores h (certStore e) \<noteq> None \<and> key_stores h (keyStore e) \<noteq> None"

text \<open>
  What an operation that deletes nothing does: objects stay, an address that was given out before gets no
  other object, static instances stay, and the pointer of an authority points to an object or was there before.
\<close>

definition points :: "'u heap \<Rightarrow> addr \<Rightarrow> bool" where
  "points h r \<longleftrightarrow> (\<exists>a ca. authorities h a = Some ca \<and> revocationMethod ca = Some r)"

definition grows :: "'u heap \<Rightarrow> 'u heap \<Rightarrow> bool" where
  "grows h h' \<longleftrightarrow> next_addr h \<le> next_addr h'
   \<and> (\<forall>a. (revocations h a \<noteq> None \<longrightarrow> revocations h' a \<noteq> None)
        \<and> (authorities h a \<noteq> None \<longrightarrow> authorities h' a \<noteq> None)
        \<and> (certificate_stores h a \<noteq> None \<longrightarrow> certificate_stores h' a \<noteq> None)
        \<and> (key_stores h a \<noteq> None \<longrightarrow> key_stores h' a \<noteq> None))
   \<and> (\<forall>a < next_addr h. (revocations h a = None \<longrightarrow> revocations h' a = None)
        \<and> (authorities h a = None \<longrightarrow> authorities h' a = None)
        \<and> (certificate_stores h a = None \<longrightarrow> certificate_stores h' a = None)
        \<and> (key_stores h a = None \<longrightarrow> key_stores h' a = None))
   \<and> (\<forall>x. instance_of h x \<noteq> None \<longrightarrow> instance_of h' x = instance_of h x)
   \<and> (\<forall>r. points h' r \<and> revocations h' r = None \<longrightarrow> points h r)"

lemma grows_refl [simp]: "grows h h"
  by (simp add: grows_def)

lemma growsD:
  assumes "grows h h'"
  shows "next_addr h \<le> next_addr h'"
    and "revocations h a \<noteq> None \<Longrightarrow> revocations h' a \<noteq> None" and "authorities h a \<noteq> None \<Longrightarrow> authorities h' a \<noteq> None"
    and "certificate_stores h a \<noteq> None \<Longrightarrow> certificate_stores h' a \<noteq> None" and "key_stores h a \<noteq> None \<Longrightarrow> key_stores h' a \<noteq> None"
    and "instance_of h x \<noteq> None \<Longrightarrow> instance_of h' x = instance_of h x"
    and "points h' r \<Longrightarrow> revocations h' r = None \<Longrightarrow> points h r"
  using assms unfolding grows_def by simp_all

lemma grows_gone:
  "grows h h' \<Longrightarrow> a < next_addr h \<Longrightarrow> revocations h a = None \<Longrightarrow> revocations h' a = None"
  "grows h h' \<Longrightarrow> a < next_addr h \<Longrightarrow> authorities h a = None \<Longrightarrow> authorities h' a = None"
  "grows h h' \<Longrightarrow> a < next_addr h \<Longrightarrow> certificate_stores h a = None \<Longrightarrow> certificate_stores h' a = None"
  "grows h h' \<Longrightarrow> a < next_addr h \<Longrightarrow> key_stores h a = None \<Longrightarrow> key_stores h' a = None"
  unfolding grows_def by simp_all

lemma grows_trans:
  assumes "grows h h1" and "grows h1 h2"
  shows "grows h h2"
proof -
  note A = growsD [OF assms(1)] and B = growsD [OF assms(2)]
  have "points h r" if "points h2 r" "revocations h2 r = None" for r
    using A(7) B(7) [OF that] B(2) [of r] that(2) by blast
  moreover have "instance_of h2 x = instance_of h x" if "instance_of h x \<noteq> None" for x
    using A(6) [OF that] B(6) [of x] that by simp
  moreover have "a < next_addr h1" if "a < next_addr h" for a using A(1) that by simp
  ultimately show ?thesis
    unfolding grows_def using A(1-5) B(1-5) grows_gone [OF assms(1)] grows_gone [OF assms(2)] by (auto dest: order_trans)
qed

text \<open>A growth by one object at the next address, or by a static instance.\<close>

lemma static_all:
  "(\<forall>x. P x) \<longleftrightarrow> P Authority_Instance \<and> P Certificates_Instance \<and> P Keys_Instance"
  by (metis static_var.exhaust)

lemma env_ok_grows: "env_ok h e \<Longrightarrow> grows h h' \<Longrightarrow> env_ok h' e"
  by (auto simp: env_ok_def grows_def)

lemma heap_ok_empty: "heap_ok empty_heap"
  by (simp add: heap_ok_def empty_heap_def)

lemma points_same [simp]:
  "points (h\<lparr>revocations := rs, next_addr := n\<rparr>) = points h"
  "points (h\<lparr>certificate_stores := cs, next_addr := n\<rparr>) = points h"
  "points (h\<lparr>key_stores := ks, next_addr := n\<rparr>) = points h"
  by (simp_all add: points_def fun_eq_iff)

lemma points_upd:
  "points (h\<lparr>authorities := (authorities h)(a \<mapsto> ca), next_addr := n\<rparr>) r \<Longrightarrow> points h r \<or> revocationMethod ca = Some r"
  by (auto simp: points_def split: if_splits)

lemma new_revocation_ok:
  "heap_ok h \<Longrightarrow> new_revocation r h = (a, h') \<Longrightarrow>
     heap_ok h' \<and> grows h h' \<and> revocations h' a \<noteq> None \<and> instance_of h' = instance_of h"
  unfolding heap_ok_def grows_def new_revocation_def fun_eq_iff static_all by auto

lemma new_authority_ok:
  "heap_ok h \<Longrightarrow> \<forall>r. revocationMethod ca = Some r \<longrightarrow> revocations h r \<noteq> None \<or> points h r \<Longrightarrow>
     new_authority ca h = (a, h') \<Longrightarrow>
     heap_ok h' \<and> grows h h' \<and> authorities h' a = Some ca \<and> instance_of h' = instance_of h"
  unfolding heap_ok_def grows_def new_authority_def fun_eq_iff static_all by (auto dest: points_upd split: if_splits)

lemma new_certificate_store_ok:
  "heap_ok h \<Longrightarrow> new_certificate_store st h = (a, h') \<Longrightarrow>
     heap_ok h' \<and> grows h h' \<and> certificate_stores h' a \<noteq> None \<and> instance_of h' = instance_of h"
  unfolding heap_ok_def grows_def new_certificate_store_def fun_eq_iff static_all by auto

lemma new_key_store_ok:
  "heap_ok h \<Longrightarrow> new_key_store st h = (a, h') \<Longrightarrow>
     heap_ok h' \<and> grows h h' \<and> key_stores h' a \<noteq> None \<and> instance_of h' = instance_of h"
  unfolding heap_ok_def grows_def new_key_store_def fun_eq_iff static_all by auto

text \<open>An object becomes a static instance, which was not there before.\<close>

lemma grows_static:
  assumes "grows h h1" and "instance_of h1 = instance_of h"
  shows "default_authority h = None \<Longrightarrow> grows h (h1\<lparr>default_authority := a\<rparr>)"
    and "default_certificates h = None \<Longrightarrow> grows h (h1\<lparr>default_certificates := a\<rparr>)"
    and "default_keys h = None \<Longrightarrow> grows h (h1\<lparr>default_keys := a\<rparr>)"
  using assms unfolding grows_def points_def fun_eq_iff static_all by auto

definition refers :: "(addr \<rightharpoonup> 'b) \<Rightarrow> addr option \<Rightarrow> bool" where
  "refers m arg \<longleftrightarrow> (\<forall>a. arg = Some a \<longrightarrow> m a \<noteq> None)"

lemma refers_None [simp]: "refers m None"
  by (simp add: refers_def)

text \<open>The pointer that a caller gives is null or points to an object.\<close>

lemma mk_CertificateAuthority_ok:
  assumes "heap_ok h" "\<forall>p. revMethod = Some p \<longrightarrow> refers (revocations h) p"
    and mk: "mk_CertificateAuthority caPath revMethod h = (a, h')"
  shows "heap_ok h' \<and> grows h h' \<and> authorities h' a \<noteq> None \<and> instance_of h' = instance_of h"
proof -
  obtain p h1 where p: "(case revMethod of Some p \<Rightarrow> (p, h)
      | None \<Rightarrow> (case new_revocation default_OCSP h of (r, h1) \<Rightarrow> (Some r, h1))) = (p, h1)"
    by fastforce
  then have h1: "heap_ok h1 \<and> grows h h1 \<and> instance_of h1 = instance_of h \<and> refers (revocations h1) p"
    using assms(1,2) new_revocation_ok [OF assms(1), of default_OCSP]
    by (cases revMethod) (auto simp: refers_def split: prod.splits)
  moreover from mk p have "new_authority \<lparr>overrideCaCertificatePath = caPath,
      trustedPeerCertificatePaths = [], revocationMethod = p\<rparr> h1 = (a, h')"
    by (simp add: mk_CertificateAuthority_def)
  ultimately show ?thesis
    using new_authority_ok [of h1 "\<lparr>overrideCaCertificatePath = caPath,
      trustedPeerCertificatePaths = [], revocationMethod = p\<rparr>" a h'] grows_trans [of h h1 h']
    by (auto simp: refers_def)
qed

text \<open>What the default arguments refer to.\<close>

primrec exists_at :: "'u heap \<Rightarrow> static_var \<Rightarrow> addr \<Rightarrow> bool" where
  "exists_at h Authority_Instance a = (authorities h a \<noteq> None)"
| "exists_at h Certificates_Instance a = (certificate_stores h a \<noteq> None)"
| "exists_at h Keys_Instance a = (key_stores h a \<noteq> None)"

lemma exists_at_grows: "exists_at h x a \<Longrightarrow> grows h h' \<Longrightarrow> exists_at h' x a"
  by (cases x) (auto simp: grows_def)

lemma heap_ok_instance: "heap_ok h \<Longrightarrow> instance_of h x = Some a \<Longrightarrow> exists_at h x a"
  by (cases x) (auto simp: heap_ok_def)

lemma authority_getDefault_ok:
  assumes "heap_ok h" and "authority_getDefault h = (a, h')"
  shows "heap_ok h' \<and> grows h h' \<and> instance_of h' = (instance_of h)(Authority_Instance := Some a)"
proof (cases "default_authority h")
  case None
  obtain h1 where mk: "mk_CertificateAuthority None None h = (a, h1)"
    and h': "h' = h1\<lparr>default_authority := Some a\<rparr>"
    using assms(2) None by (auto simp: authority_getDefault_def split: prod.splits)
  from mk_CertificateAuthority_ok [OF assms(1) _ mk]
  have m: "heap_ok h1" "grows h h1" "authorities h1 a \<noteq> None" "instance_of h1 = instance_of h" by simp_all
  then have "heap_ok h'" by (auto simp: h' heap_ok_def)
  with m grows_static(1) [OF m(2,4) None, of "Some a"] show ?thesis
    by (simp add: h' fun_eq_iff static_all)
next
  case (Some d)
  with assms show ?thesis by (simp add: authority_getDefault_def fun_eq_iff static_all)
qed

lemma certificates_getDefault_ok:
  assumes "heap_ok h" and "certificates_getDefault F h = (r, h')"
  shows "heap_ok h' \<and> grows h h' \<and> instance_of h' =
    (case r of Inl e \<Rightarrow> instance_of h | Inr a \<Rightarrow> (instance_of h)(Certificates_Instance := Some a))"
proof (cases "default_certificates h")
  case (Some d)
  with assms show ?thesis by (auto simp: certificates_getDefault_def fun_eq_iff static_all)
next
  case None
  show ?thesis
  proof (cases "mk_LocalCertificateStore F None")
    case (Inl e)
    with None assms show ?thesis by (auto simp: certificates_getDefault_def)
  next
    case (Inr st)
    obtain a h1 where n: "new_certificate_store (Local_Certificates st) h = (a, h1)" by fastforce
    with None Inr assms(2) have r: "r = Inr a" "h' = h1\<lparr>default_certificates := Some a\<rparr>"
      by (auto simp: certificates_getDefault_def)
    from new_certificate_store_ok [OF assms(1) n]
    have m: "heap_ok h1" "grows h h1" "certificate_stores h1 a \<noteq> None" "instance_of h1 = instance_of h" by simp_all
    then have "heap_ok h'" by (auto simp: r heap_ok_def)
    with m grows_static(2) [OF m(2,4) None, of "Some a"] show ?thesis
      by (simp add: r fun_eq_iff static_all)
  qed
qed

lemma keys_getDefault_ok:
  assumes "heap_ok h" and "keys_getDefault F h = (r, h')"
  shows "heap_ok h' \<and> grows h h' \<and> instance_of h' =
    (case r of Inl e \<Rightarrow> instance_of h | Inr a \<Rightarrow> (instance_of h)(Keys_Instance := Some a))"
proof (cases "default_keys h")
  case (Some d)
  with assms show ?thesis by (auto simp: keys_getDefault_def fun_eq_iff static_all)
next
  case None
  show ?thesis
  proof (cases "mk_LocalKeyStore F None")
    case (Inl e)
    with None assms show ?thesis by (auto simp: keys_getDefault_def)
  next
    case (Inr st)
    obtain a h1 where n: "new_key_store (Local_Keys st) h = (a, h1)" by fastforce
    with None Inr assms(2) have r: "r = Inr a" "h' = h1\<lparr>default_keys := Some a\<rparr>"
      by (auto simp: keys_getDefault_def)
    from new_key_store_ok [OF assms(1) n]
    have m: "heap_ok h1" "grows h h1" "key_stores h1 a \<noteq> None" "instance_of h1 = instance_of h" by simp_all
    then have "heap_ok h'" by (auto simp: r heap_ok_def)
    with m grows_static(3) [OF m(2,4) None, of "Some a"] show ?thesis
      by (simp add: r fun_eq_iff static_all)
  qed
qed

lemma getDefault_ok:
  assumes "heap_ok h" and "getDefault F x h = (r, h')"
  shows "heap_ok h' \<and> grows h h' \<and> instance_of h' =
    (case r of Inl e \<Rightarrow> instance_of h | Inr a \<Rightarrow> (instance_of h)(x := Some a))"
  using assms
  by (cases x) (auto dest: authority_getDefault_ok certificates_getDefault_ok keys_getDefault_ok split: prod.splits)

text \<open>The evaluation of the arguments, in any order.\<close>

definition arguments_ok :: "'u heap \<Rightarrow> (static_var \<Rightarrow> addr option) \<Rightarrow> (static_var \<rightharpoonup> addr) \<Rightarrow> bool" where
  "arguments_ok h given args \<longleftrightarrow> (\<forall>x a. args x = Some a \<longrightarrow> exists_at h x a
     \<and> (given x = None \<longrightarrow> instance_of h x = Some a))"

lemma eval_arguments_ok:
  assumes "heap_ok h" and "\<forall>x a. given x = Some a \<longrightarrow> exists_at h x a" and "arguments_ok h given args"
    and "eval_arguments F given xs args h = (r, h')"
  shows "heap_ok h' \<and> grows h h' \<and> (\<forall>args'. r = Inr args' \<longrightarrow> arguments_ok h' given args' \<and> dom args' = dom args \<union> set xs)"
  using assms
proof (induction xs arbitrary: args h)
  case (Cons x xs)
  obtain q h1 where q: "(case given x of Some a \<Rightarrow> (Inr a, h) | None \<Rightarrow> getDefault F x h) = (q, h1)" by fastforce
  have h1: "heap_ok h1 \<and> grows h h1 \<and> (\<forall>a. q = Inr a \<longrightarrow> exists_at h1 x a \<and> (given x = None \<longrightarrow> instance_of h1 x = Some a))"
  proof (cases "given x")
    case None
    with q getDefault_ok [OF Cons.prems(1), of F x q h1] heap_ok_instance [of h1 x] show ?thesis by auto
  next
    case (Some a)
    with q Cons.prems(1,2) show ?thesis by auto
  qed
  show ?case
  proof (cases q)
    case (Inl e)
    with q h1 Cons.prems(4) show ?thesis by auto
  next
    case (Inr a)
    have g: "\<forall>y b. given y = Some b \<longrightarrow> exists_at h1 y b" using Cons.prems(2) exists_at_grows h1 by blast
    have "instance_of h1 y = Some b" if "instance_of h y = Some b" for y b
      using that h1 unfolding grows_def by auto
    then have ok: "arguments_ok h1 given (args(x \<mapsto> a))"
      using Cons.prems(3) h1 exists_at_grows [of h _ _ h1] Inr unfolding arguments_ok_def by auto
    have ev: "eval_arguments F given xs (args(x \<mapsto> a)) h1 = (r, h')" using q Inr Cons.prems(4) by simp
    have IH: "heap_ok h' \<and> grows h1 h'
        \<and> (\<forall>args'. r = Inr args' \<longrightarrow> arguments_ok h' given args' \<and> dom args' = dom (args(x \<mapsto> a)) \<union> set xs)"
      by (rule Cons.IH [OF conjunct1 [OF h1] g ok ev])
    have "dom (args(x \<mapsto> a)) \<union> set xs = dom args \<union> set (x # xs)" by simp
    moreover have "grows h h'" using IH h1 grows_trans [of h h1 h'] by blast
    ultimately show ?thesis using IH by (simp only: conj_assoc) blast
  qed
qed auto

lemma eval_arguments_dom:
  "eval_arguments F given xs args h = (Inr args', h') \<Longrightarrow> dom args' = dom args \<union> set xs"
proof (induction xs arbitrary: args h)
  case (Cons x xs)
  then obtain a h1 where "eval_arguments F given xs (args(x \<mapsto> a)) h1 = (Inr args', h')"
    by (auto split: prod.splits sum.splits option.splits)
  from Cons.IH [OF this] show ?case by (simp only: dom_fun_upd option.distinct if_False set_simps Un_insert_left Un_insert_right)
qed auto

lemma set_order_of: "set (order_of ord) = UNIV"
proof -
  have "x \<in> set (order_of ord)" for x by (cases x; cases ord) simp_all
  then show ?thesis by blast
qed

lemma distinct_order_of: "distinct (order_of ord)"
  by (cases ord) simp_all

lemma assemble_total: "dom args = UNIV \<Longrightarrow> \<exists>e. assemble args = Some e"
  by (simp add: assemble_def dom_def set_eq_iff static_all) auto

lemma assemble_Some:
  "assemble args = Some e \<Longrightarrow> args Authority_Instance = Some (certAuth e)
     \<and> args Certificates_Instance = Some (certStore e) \<and> args Keys_Instance = Some (keyStore e)"
  by (auto simp: assemble_def split: option.splits)

lemma mk_PKIEnvironment_ok:
  assumes ok: "heap_ok h"
    and given: "refers (authorities h) auth" "refers (certificate_stores h) certs" "refers (key_stores h) keys"
    and mk: "mk_PKIEnvironment F ord auth certs keys h = (r, h')"
  shows "heap_ok h' \<and> grows h h' \<and> (\<forall>e. r = Inr e \<longrightarrow> env_ok h' e
     \<and> (auth = None \<longrightarrow> default_authority h' = Some (certAuth e)))"
proof -
  let ?g = "passed auth certs keys"
  obtain q h1 where q: "eval_arguments F ?g (order_of ord) Map.empty h = (q, h1)" by fastforce
  have "\<forall>x a. ?g x = Some a \<longrightarrow> exists_at h x a" using given by (simp add: static_all refers_def)
  from eval_arguments_ok [OF ok this _ q] have e: "heap_ok h1" "grows h h1"
      "\<And>args. q = Inr args \<Longrightarrow> arguments_ok h1 ?g args \<and> dom args = UNIV"
    by (simp_all add: arguments_ok_def set_order_of)
  show ?thesis
  proof (cases q)
    case (Inl err)
    with mk q e(1,2) show ?thesis by (auto simp: mk_PKIEnvironment_def)
  next
    case (Inr args)
    with e(3) obtain env where env: "assemble args = Some env" using assemble_total by blast
    with mk q Inr have r: "r = Inr env" "h' = h1" by (auto simp: mk_PKIEnvironment_def)
    from e(3) [OF Inr] assemble_Some [OF env] have "env_ok h1 env"
        "auth = None \<longrightarrow> default_authority h1 = Some (certAuth env)"
      by (auto simp: arguments_ok_def static_all env_ok_def)
    with e(1,2) show ?thesis by (simp add: r)
  qed
qed

lemma addTrustedPeerCertificate_ok:
  "heap_ok h \<Longrightarrow> heap_ok (addTrustedPeerCertificate a p h) \<and> grows h (addTrustedPeerCertificate a p h)"
  unfolding heap_ok_def grows_def addTrustedPeerCertificate_def points_def static_all by (auto split: if_splits)

lemma setCertificateAuthority_ok:
  "heap_ok h \<Longrightarrow> authorities h (certAuth e) \<noteq> None \<Longrightarrow> authorities h a \<noteq> None \<Longrightarrow>
     heap_ok (setCertificateAuthority e a h) \<and> grows h (setCertificateAuthority e a h)"
  unfolding heap_ok_def grows_def setCertificateAuthority_def points_def static_all by (force split: if_splits)

lemma setCertificateStore_id: "setCertificateStore e a h = h"
  by (auto simp: setCertificateStore_def assign_CertificateStore_base_def map_upd_triv split: option.split)

lemma setKeyStore_id: "setKeyStore e a h = h"
  by (auto simp: setKeyStore_def assign_KeyStore_base_def map_upd_triv split: option.split)

section \<open>Programs over the PKI objects\<close>

text \<open>
  The state of a program that uses these classes: the objects, the environments it made, and the addresses of the
  objects it deleted. No address is given to a second object.
\<close>

record 'u pki_state =
  pki_heap :: "'u heap"
  pki_envs :: "PKIEnvironment list"
  pki_deleted :: "addr set"

definition pki_init :: "'u pki_state \<Rightarrow> bool" where
  "pki_init s \<longleftrightarrow> s = \<lparr>pki_heap = empty_heap, pki_envs = [], pki_deleted = {}\<rparr>"

text \<open>A program deletes objects it made; those of static storage duration it cannot delete.\<close>

definition delete_object :: "addr \<Rightarrow> 'u heap \<Rightarrow> 'u heap" where
  "delete_object a h = h\<lparr>revocations := (revocations h)(a := None), authorities := (authorities h)(a := None),
     certificate_stores := (certificate_stores h)(a := None), key_stores := (key_stores h)(a := None)\<rparr>"

definition deletable :: "'u heap \<Rightarrow> addr \<Rightarrow> bool" where
  "deletable h a \<longleftrightarrow> (revocations h a \<noteq> None \<or> authorities h a \<noteq> None \<or> certificate_stores h a \<noteq> None
       \<or> key_stores h a \<noteq> None) \<and> (\<forall>x. instance_of h x \<noteq> Some a)"

text \<open>
  Each operation is called on objects that exist, but nothing is said of what these refer to in turn. An authority may
  be copied: the copy has the same pointer.
\<close>

inductive pki_step :: "'u pki_state \<Rightarrow> 'u pki_state \<Rightarrow> bool" where
  revocation: "pki_step s (s\<lparr>pki_heap := snd (new_revocation r (pki_heap s))\<rparr>)"
| authority: "\<forall>p. revMethod = Some p \<longrightarrow> refers (revocations (pki_heap s)) p \<Longrightarrow>
    pki_step s (s\<lparr>pki_heap := snd (mk_CertificateAuthority caPath revMethod (pki_heap s))\<rparr>)"
| copy_authority: "authorities (pki_heap s) a = Some ca \<Longrightarrow>
    pki_step s (s\<lparr>pki_heap := snd (new_authority ca (pki_heap s))\<rparr>)"
| certificate_store: "pki_step s (s\<lparr>pki_heap := snd (new_certificate_store st (pki_heap s))\<rparr>)"
| key_store: "pki_step s (s\<lparr>pki_heap := snd (new_key_store ks (pki_heap s))\<rparr>)"
| delete: "deletable (pki_heap s) a \<Longrightarrow>
    pki_step s (s\<lparr>pki_heap := delete_object a (pki_heap s), pki_deleted := insert a (pki_deleted s)\<rparr>)"
| trust_peer: "authorities (pki_heap s) a \<noteq> None \<Longrightarrow>
    pki_step s (s\<lparr>pki_heap := addTrustedPeerCertificate a p (pki_heap s)\<rparr>)"
| environment: "refers (authorities (pki_heap s)) auth \<Longrightarrow> refers (certificate_stores (pki_heap s)) certs \<Longrightarrow>
    refers (key_stores (pki_heap s)) keys \<Longrightarrow>
    mk_PKIEnvironment F ord auth certs keys (pki_heap s) = (r, h') \<Longrightarrow>
    pki_step s (s\<lparr>pki_heap := h', pki_envs := (case r of Inl _ \<Rightarrow> pki_envs s | Inr e \<Rightarrow> e # pki_envs s)\<rparr>)"
| set_authority: "e \<in> set (pki_envs s) \<Longrightarrow> authorities (pki_heap s) (certAuth e) \<noteq> None \<Longrightarrow>
    authorities (pki_heap s) a \<noteq> None \<Longrightarrow>
    pki_step s (s\<lparr>pki_heap := setCertificateAuthority e a (pki_heap s)\<rparr>)"
| set_certificates: "e \<in> set (pki_envs s) \<Longrightarrow> certificate_stores (pki_heap s) (certStore e) \<noteq> None \<Longrightarrow>
    certificate_stores (pki_heap s) a \<noteq> None \<Longrightarrow>
    pki_step s (s\<lparr>pki_heap := setCertificateStore e a (pki_heap s)\<rparr>)"
| set_keys: "e \<in> set (pki_envs s) \<Longrightarrow> key_stores (pki_heap s) (keyStore e) \<noteq> None \<Longrightarrow>
    key_stores (pki_heap s) a \<noteq> None \<Longrightarrow>
    pki_step s (s\<lparr>pki_heap := setKeyStore e a (pki_heap s)\<rparr>)"

text \<open>
  The invariant: a deleted object is gone and was no static instance, and what is not deleted is valid: the pointer of
  an authority, and the references of an environment.
\<close>

definition gone :: "'u heap \<Rightarrow> addr \<Rightarrow> bool" where
  "gone h a \<longleftrightarrow> a < next_addr h \<and> revocations h a = None \<and> authorities h a = None
     \<and> certificate_stores h a = None \<and> key_stores h a = None"

definition env_refs_ok :: "'u heap \<Rightarrow> addr set \<Rightarrow> PKIEnvironment \<Rightarrow> bool" where
  "env_refs_ok h D e \<longleftrightarrow> (authorities h (certAuth e) \<noteq> None \<or> certAuth e \<in> D)
     \<and> (certificate_stores h (certStore e) \<noteq> None \<or> certStore e \<in> D)
     \<and> (key_stores h (keyStore e) \<noteq> None \<or> keyStore e \<in> D)"

definition heap_inv :: "'u heap \<Rightarrow> addr set \<Rightarrow> bool" where
  "heap_inv h D \<longleftrightarrow> heap_ok h \<and> (\<forall>a \<in> D. gone h a)
     \<and> (\<forall>r. points h r \<longrightarrow> revocations h r \<noteq> None \<or> r \<in> D)"

definition pki_inv :: "'u pki_state \<Rightarrow> bool" where
  "pki_inv s \<longleftrightarrow> heap_inv (pki_heap s) (pki_deleted s)
     \<and> (\<forall>e \<in> set (pki_envs s). env_refs_ok (pki_heap s) (pki_deleted s) e)"

lemma env_refs_grows: "env_refs_ok h D e \<Longrightarrow> grows h h' \<Longrightarrow> env_refs_ok h' D e"
  unfolding env_refs_ok_def grows_def by blast

lemma env_ok_refs: "env_ok h e \<Longrightarrow> env_refs_ok h D e"
  by (simp add: env_ok_def env_refs_ok_def)

lemma heap_inv_grows: "heap_inv h D \<Longrightarrow> heap_ok h' \<Longrightarrow> grows h h' \<Longrightarrow> heap_inv h' D"
proof -
  assume inv: "heap_inv h D" and ok: "heap_ok h'" and g: "grows h h'"
  have "gone h' a" if "a \<in> D" for a
    using inv that growsD(1) [OF g] grows_gone [OF g, of a] by (auto simp: heap_inv_def gone_def)
  moreover have "r \<in> D" if "points h' r" "revocations h' r = None" for r
    using growsD(7) [OF g that] growsD(2) [OF g, of r] that(2) inv unfolding heap_inv_def by blast
  ultimately show ?thesis using ok unfolding heap_inv_def by blast
qed

lemma heap_inv_delete:
  assumes "heap_inv h D" and "deletable h a"
  shows "heap_inv (delete_object a h) (insert a D)"
proof -
  have ok: "heap_ok h" using assms(1) by (simp add: heap_inv_def)
  have "\<not> next_addr h \<le> a"
  proof
    assume "next_addr h \<le> a"
    with ok have "revocations h a = None \<and> authorities h a = None \<and> certificate_stores h a = None \<and> key_stores h a = None"
      by (simp add: heap_ok_def)
    with assms(2) show False by (simp add: deletable_def)
  qed
  then have "a < next_addr h" by simp
  moreover have "heap_ok (delete_object a h)"
    using ok assms(2) by (simp add: heap_ok_def deletable_def delete_object_def static_all)
  moreover have "revocations (delete_object a h) r \<noteq> None \<or> r \<in> insert a D" if "points (delete_object a h) r" for r
  proof -
    from that have "points h r" by (auto simp: points_def delete_object_def split: if_splits)
    with assms(1) show ?thesis by (auto simp: heap_inv_def delete_object_def)
  qed
  ultimately show ?thesis using assms(1) by (auto simp: heap_inv_def gone_def delete_object_def)
qed

lemma env_refs_delete: "env_refs_ok h D e \<Longrightarrow> env_refs_ok (delete_object a h) (insert a D) e"
  by (auto simp: env_refs_ok_def delete_object_def)

text \<open>A step deletes one object, or the objects grow; an environment that it makes refers to objects that exist.\<close>

definition pki_effect :: "'u pki_state \<Rightarrow> 'u pki_state \<Rightarrow> bool" where
  "pki_effect s t \<longleftrightarrow> (heap_ok (pki_heap t) \<and> grows (pki_heap s) (pki_heap t) \<and> pki_deleted t = pki_deleted s
      \<or> (\<exists>a. deletable (pki_heap s) a \<and> pki_heap t = delete_object a (pki_heap s) \<and> pki_deleted t = insert a (pki_deleted s)))
    \<and> (\<forall>e \<in> set (pki_envs t). e \<in> set (pki_envs s) \<or> env_ok (pki_heap t) e)"

lemma pki_effect_heap: "heap_ok h' \<and> grows (pki_heap s) h' \<Longrightarrow> pki_effect s (s\<lparr>pki_heap := h'\<rparr>)"
  by (simp add: pki_effect_def)

lemma pki_step_effect: "pki_step s t \<Longrightarrow> heap_ok (pki_heap s) \<Longrightarrow> pki_effect s t"
proof (induction rule: pki_step.induct)
  case (revocation s r)
  then show ?case using new_revocation_ok [of "pki_heap s" r] by (intro pki_effect_heap) (auto simp: prod_eq_iff)
next
  case (authority revMethod s caPath)
  then show ?case using mk_CertificateAuthority_ok [of "pki_heap s" revMethod caPath]
    by (intro pki_effect_heap) (auto simp: prod_eq_iff)
next
  case (copy_authority s a ca)
  have "\<forall>r. revocationMethod ca = Some r \<longrightarrow> revocations (pki_heap s) r \<noteq> None \<or> points (pki_heap s) r"
    using copy_authority(1) by (auto simp: points_def)
  from new_authority_ok [OF copy_authority(2) this] show ?case by (intro pki_effect_heap) (auto simp: prod_eq_iff)
next
  case (certificate_store s st)
  then show ?case using new_certificate_store_ok [of "pki_heap s" st] by (intro pki_effect_heap) (auto simp: prod_eq_iff)
next
  case (key_store s ks)
  then show ?case using new_key_store_ok [of "pki_heap s" ks] by (intro pki_effect_heap) (auto simp: prod_eq_iff)
next
  case (delete s a)
  then show ?case by (auto simp: pki_effect_def)
next
  case (trust_peer s a p)
  then show ?case by (intro pki_effect_heap addTrustedPeerCertificate_ok)
next
  case (environment s auth certs keys F ord r h')
  from mk_PKIEnvironment_ok [OF environment(5,1-4)] show ?case by (auto simp: pki_effect_def split: sum.splits)
next
  case (set_authority e s a)
  then show ?case by (intro pki_effect_heap setCertificateAuthority_ok)
qed (simp_all add: setCertificateStore_id setKeyStore_id pki_effect_def)

lemma pki_effect_inv:
  assumes "pki_effect s t" and "heap_inv (pki_heap s) (pki_deleted s)"
  shows "heap_inv (pki_heap t) (pki_deleted t)"
    and "env_refs_ok (pki_heap s) (pki_deleted s) e \<Longrightarrow> env_refs_ok (pki_heap t) (pki_deleted t) e"
  using assms heap_inv_grows [OF assms(2), of "pki_heap t"] env_refs_grows [of "pki_heap s" "pki_deleted s" e "pki_heap t"]
    heap_inv_delete [OF assms(2)] env_refs_delete [of "pki_heap s" "pki_deleted s" e]
  unfolding pki_effect_def by auto

lemma pki_step_inv:
  assumes "pki_step s t" and "pki_inv s"
  shows "pki_inv t"
proof -
  have inv: "heap_inv (pki_heap s) (pki_deleted s)" using assms(2) by (simp add: pki_inv_def)
  have e: "pki_effect s t" by (rule pki_step_effect [OF assms(1)]) (use inv in \<open>simp add: heap_inv_def\<close>)
  have "env_refs_ok (pki_heap t) (pki_deleted t) x" if "x \<in> set (pki_envs t)" for x
    using e that env_ok_refs [of "pki_heap t" x "pki_deleted t"] pki_effect_inv(2) [OF e inv, of x] assms(2)
    unfolding pki_effect_def pki_inv_def by blast
  with pki_effect_inv(1) [OF e inv] show ?thesis by (simp add: pki_inv_def)
qed

interpretation pki: transition_system pki_init pki_step pki_inv
proof
  show "pki_init s \<Longrightarrow> pki_inv s" for s :: "'u pki_state"
    by (simp add: pki_init_def pki_inv_def heap_inv_def heap_ok_empty points_def) (simp add: empty_heap_def)
  show "pki_inv s \<Longrightarrow> pki_step s t \<Longrightarrow> pki_inv t" for s t :: "'u pki_state"
    using pki_step_inv by blast
qed

text \<open>The invariant as an equivalence.\<close>

lemma env_refs_iff:
  assumes "heap_inv h D" and "env_refs_ok h D e"
  shows "(getCertificateAuthority e h = None \<longleftrightarrow> certAuth e \<in> D) \<and> (getCertificateStore e h = None \<longleftrightarrow> certStore e \<in> D)
     \<and> (getKeyStore e h = None \<longleftrightarrow> keyStore e \<in> D)"
  using assms
  by (auto simp: heap_inv_def gone_def env_refs_ok_def getCertificateAuthority_def getCertificateStore_def getKeyStore_def)

lemma pointers_iff: "heap_inv h D \<Longrightarrow> points h r \<Longrightarrow> revocations h r = None \<longleftrightarrow> r \<in> D"
  by (auto simp: heap_inv_def gone_def)

lemma instances_kept: "heap_inv h D \<Longrightarrow> instance_of h x = Some a \<Longrightarrow> exists_at h x a \<and> a \<notin> D"
  using heap_ok_instance [of h x a] by (cases x) (auto simp: heap_inv_def gone_def)

section \<open>A sample program\<close>

text \<open>Two environments built with default arguments, and an authority with a CA of its own.\<close>

definition sample_heap :: "nat heap" where
  "sample_heap =
     \<lparr>revocations = [0 \<mapsto> default_OCSP, 4 \<mapsto> default_OCSP],
      authorities = [1 \<mapsto> \<lparr>overrideCaCertificatePath = None, trustedPeerCertificatePaths = [], revocationMethod = Some 0\<rparr>,
                     5 \<mapsto> \<lparr>overrideCaCertificatePath = Some ''ca.pem'', trustedPeerCertificatePaths = [], revocationMethod = Some 4\<rparr>],
      certificate_stores = [2 \<mapsto> Local_Certificates \<lparr>certDir = Some ''/home''\<rparr>],
      key_stores = [3 \<mapsto> Local_Keys \<lparr>privateKeyDir = Some ''/home''\<rparr>],
      next_addr = 6, default_authority = Some 1, default_certificates = Some 2, default_keys = Some 3\<rparr>"

definition sample_env :: PKIEnvironment where
  "sample_env = \<lparr>certAuth = 1, certStore = 2, keyStore = 3\<rparr>"

lemma sample_heap_ok: "heap_ok sample_heap"
  by (simp add: heap_ok_def sample_heap_def)

lemma sample_mk: "mk_PKIEnvironment sample_fs ord None None None sample_heap = (Inr sample_env, sample_heap)"
  by (cases ord)
    (simp_all add: mk_PKIEnvironment_def authority_getDefault_def certificates_getDefault_def
      keys_getDefault_def sample_heap_def sample_env_def assemble_def)

lemma sample_first_mk:
  "\<exists>e h. mk_PKIEnvironment sample_fs Order_ACK None None None (empty_heap :: nat heap) = (Inr e, h)
     \<and> revocations h 0 \<noteq> None \<and> (\<forall>x. instance_of h x \<noteq> Some 0)
     \<and> (\<exists>ca. authorities h (certAuth e) = Some ca \<and> revocationMethod ca = Some 0)"
  by (simp add: mk_PKIEnvironment_def authority_getDefault_def certificates_getDefault_def
      keys_getDefault_def mk_CertificateAuthority_def new_revocation_def new_authority_def
      new_certificate_store_def new_key_store_def mk_LocalCertificateStore_def mk_LocalKeyStore_def
      empty_heap_def store_defs sample_fs_def is_absolute_path_def assemble_def static_all)

section \<open>Properties\<close>

text \<open>C11: in every state of a program with these classes, which may delete any object that it made (authorities,
  stores and revocation methods, also those it did not make itself but got as a pointer), whatever files exist
  and whichever constructors fail: a reference of an environment dangles exactly when the program deleted the very
  object it refers to; the revocation pointer of an authority is null, or dangles exactly when the
  program deleted that revocation method; and the static default instances exist and stay. So no
  constructor, copy or setter leaves an invalid reference behind by itself.\<close>

theorem references_stay_valid:
  assumes "reachable pki_init pki_step s"
  shows "(\<forall>e \<in> set (pki_envs s).
        (getCertificateAuthority e (pki_heap s) = None \<longleftrightarrow> certAuth e \<in> pki_deleted s)
      \<and> (getCertificateStore e (pki_heap s) = None \<longleftrightarrow> certStore e \<in> pki_deleted s)
      \<and> (getKeyStore e (pki_heap s) = None \<longleftrightarrow> keyStore e \<in> pki_deleted s))
   \<and> (\<forall>a ca r. authorities (pki_heap s) a = Some ca \<and> revocationMethod ca = Some r \<longrightarrow>
        (revocations (pki_heap s) r = None \<longleftrightarrow> r \<in> pki_deleted s))
   \<and> (\<forall>x a. instance_of (pki_heap s) x = Some a \<longrightarrow> exists_at (pki_heap s) x a \<and> a \<notin> pki_deleted s)"
proof -
  have inv: "heap_inv (pki_heap s) (pki_deleted s)"
    and e: "e \<in> set (pki_envs s) \<Longrightarrow> env_refs_ok (pki_heap s) (pki_deleted s) e" for e
    using pki.inv_reachable [OF assms] by (simp_all add: pki_inv_def)
  have "revocations (pki_heap s) r = None \<longleftrightarrow> r \<in> pki_deleted s"
    if "authorities (pki_heap s) a = Some ca" "revocationMethod ca = Some r" for a ca r
    using pointers_iff [OF inv, of r] that by (auto simp: points_def)
  with env_refs_iff [OF inv e] instances_kept [OF inv] show ?thesis by blast
qed

text \<open>An environment with default arguments; then the program deletes the revocation method of the default authority.\<close>

theorem references_stay_valid_witness:
  "\<exists>(s :: nat pki_state) e ca r. e \<in> set (pki_envs s) \<and> getCertificateAuthority e (pki_heap s) = Some ca
     \<and> revocationMethod ca = Some r \<and> revocations (pki_heap s) r = None"
proof -
  let ?s0 = "\<lparr>pki_heap = empty_heap, pki_envs = [], pki_deleted = {}\<rparr> :: nat pki_state"
  obtain e and h :: "nat heap" where mk: "mk_PKIEnvironment sample_fs Order_ACK None None None empty_heap = (Inr e, h)"
    and r: "revocations h 0 \<noteq> None" "\<forall>x. instance_of h x \<noteq> Some 0"
    and a: "\<exists>ca. authorities h (certAuth e) = Some ca \<and> revocationMethod ca = Some 0"
    using sample_first_mk by blast
  let ?s1 = "\<lparr>pki_heap = h, pki_envs = [e], pki_deleted = {}\<rparr>"
  let ?s2 = "?s1\<lparr>pki_heap := delete_object 0 h, pki_deleted := {0}\<rparr>"
  have "reachable pki_init pki_step ?s0" by (rule reachable_init) (simp add: pki_init_def)
  moreover have "pki_step ?s0 ?s1"
    using pki_step.environment [of ?s0 None None None sample_fs Order_ACK "Inr e" h] mk by simp
  moreover have "pki_step ?s1 ?s2" using pki_step.delete [of ?s1 0] r by (simp add: deletable_def)
  ultimately have s2: "reachable pki_init pki_step ?s2" by (meson reachable_step)
  from a obtain ca where ca: "authorities h (certAuth e) = Some ca" "revocationMethod ca = Some 0" by blast
  then have "certAuth e \<noteq> 0" using mk_PKIEnvironment_ok [OF heap_ok_empty _ _ _ mk] r(2) by (auto simp: static_all)
  with ca have "authorities (delete_object 0 h) (certAuth e) = Some ca" by (simp add: delete_object_def)
  with references_stay_valid [OF s2] ca(2) show ?thesis
    by (intro exI [of _ ?s2] exI [of _ e] exI [of _ ca] exI [of _ 0]) (auto simp: getCertificateAuthority_def)
qed

text \<open>The authority that is set is copied with its revocation pointer. When its owner deletes that method,
  the environment's authority is left with a dangling pointer.\<close>

theorem set_authority_shares_method:
  assumes "authorities h a = Some ca" and "revocationMethod ca = Some r" and "r \<noteq> certAuth e"
  shows "\<exists>ca'. getCertificateAuthority e (delete_object r (setCertificateAuthority e a h)) = Some ca'
    \<and> revocationMethod ca' = Some r \<and> revocations (delete_object r (setCertificateAuthority e a h)) r = None"
  using assms by (simp add: getCertificateAuthority_def setCertificateAuthority_def delete_object_def)

theorem set_authority_shares_method_witness:
  "revocations (delete_object 4 (setCertificateAuthority sample_env 5 sample_heap)) 4 = None
   \<and> map_option revocationMethod (getCertificateAuthority sample_env
       (delete_object 4 (setCertificateAuthority sample_env 5 sample_heap))) = Some (Some 4)"
proof -
  have "authorities sample_heap 5 = Some \<lparr>overrideCaCertificatePath = Some ''ca.pem'',
      trustedPeerCertificatePaths = [], revocationMethod = Some 4\<rparr>" and "(4 :: addr) \<noteq> certAuth sample_env"
    by (simp_all add: sample_heap_def sample_env_def)
  from set_authority_shares_method [OF this(1) _ this(2)] show ?thesis by auto
qed

text \<open>Replacing the certificate store or the key store of an environment has no effect on
  it, or on any other: \<open>setCertificateStore\<close> and \<open>setKeyStore\<close> assign through a reference to
  a base class without members, so every certificate and key is still loaded from the store that
  was there before, whatever store was passed.\<close>

theorem store_setters_have_no_effect:
  "map_option (\<lambda>st. virtual_getCertificate F st p)
      (getCertificateStore e' (setKeyStore e b (setCertificateStore e a h)))
     = map_option (\<lambda>st. virtual_getCertificate F st p) (getCertificateStore e' h)
   \<and> map_option (\<lambda>ks. virtual_getPrivateKey F ks p)
      (getKeyStore e' (setKeyStore e b (setCertificateStore e a h)))
     = map_option (\<lambda>ks. virtual_getPrivateKey F ks p) (getKeyStore e' h)"
  by (simp add: setCertificateStore_id setKeyStore_id)

text \<open>C28: environments built with the default authority share it: setting the authority of one
  of them overwrites the process-wide default instance, so that every other such environment,
  made before or after, now verifies with the new settings.\<close>

theorem default_authority_is_shared:
  assumes "heap_ok h"
    and "mk_PKIEnvironment F ord None None None h = (Inr e1, h1)"
    and "mk_PKIEnvironment F' ord' None None None h1 = (Inr e2, h2)"
    and "authorities h2 a = Some ca"
  shows "getCertificateAuthority e2 (setCertificateAuthority e1 a h2) = Some ca
     \<and> getCertificateAuthority e1 (setCertificateAuthority e2 a h2) = Some ca"
proof -
  note ok1 = mk_PKIEnvironment_ok [OF assms(1) refers_None refers_None refers_None assms(2)]
  then have "heap_ok h1" by blast
  note ok2 = mk_PKIEnvironment_ok [OF this refers_None refers_None refers_None assms(3)]
  from ok1 have d: "default_authority h1 = Some (certAuth e1)" by simp
  moreover have "instance_of h2 Authority_Instance = instance_of h1 Authority_Instance"
    using ok2 d unfolding grows_def by (metis instance_of.simps(1) option.distinct(1))
  ultimately have "certAuth e1 = certAuth e2" using ok2 by simp
  with assms(4) show ?thesis
    by (simp add: getCertificateAuthority_def setCertificateAuthority_def)
qed

theorem default_authority_is_shared_witness:
  "getCertificateAuthority sample_env (setCertificateAuthority sample_env 5 sample_heap)
     = Some \<lparr>overrideCaCertificatePath = Some ''ca.pem'', trustedPeerCertificatePaths = [], revocationMethod = Some 4\<rparr>"
  by (rule default_authority_is_shared [OF sample_heap_ok sample_mk sample_mk, THEN conjunct1])
    (simp add: sample_heap_def)

text \<open>Setting an authority copies its settings once. A peer added later to the authority that
  was passed does not reach the environment; a peer added through the environment's own
  authority does, at the end of the list, and leaves the one that was passed alone; and both
  share one revocation method.\<close>

theorem set_authority_copies:
  assumes "authorities h a = Some ca" and "a \<noteq> certAuth e"
  shows "getCertificateAuthority e (addTrustedPeerCertificate a p (setCertificateAuthority e a h)) = Some ca
     \<and> map_option trustedPeerCertificatePaths
         (getCertificateAuthority e (addTrustedPeerCertificate (certAuth e) p (setCertificateAuthority e a h)))
       = Some (trustedPeerCertificatePaths ca @ [p])
     \<and> authorities (addTrustedPeerCertificate (certAuth e) p (setCertificateAuthority e a h)) a = Some ca
     \<and> map_option revocationMethod (getCertificateAuthority e (setCertificateAuthority e a h))
       = Some (revocationMethod ca)"
  using assms by (simp add: getCertificateAuthority_def setCertificateAuthority_def addTrustedPeerCertificate_def)

theorem set_authority_copies_witness:
  "map_option trustedPeerCertificatePaths (getCertificateAuthority sample_env
     (addTrustedPeerCertificate 1 ''peer.pem'' (setCertificateAuthority sample_env 5 sample_heap)))
   = Some [''peer.pem'']"
proof -
  have "authorities sample_heap 5 = Some \<lparr>overrideCaCertificatePath = Some ''ca.pem'',
      trustedPeerCertificatePaths = [], revocationMethod = Some 4\<rparr>" and "(5 :: addr) \<noteq> certAuth sample_env"
    by (simp_all add: sample_heap_def sample_env_def)
  from set_authority_copies [OF this, of "''peer.pem''"] show ?thesis
    by (simp add: sample_env_def)
qed

end
