(* ===== verification/Iggy_SslContext.thy ===== *)
theory Iggy_SslContext
  imports Iggy_SslOptions Iggy_Pki
begin

text \<open>
  \<open>SSLContext\<close> of \<^verbatim>\<open>sdk/net/crypto/ssl.h\<close> and \<^verbatim>\<open>sdk/net/crypto/ssl.cc\<close>: its
  constructors, its assignments and its destructor, as operations on the object and on the
  history of the calls made to wolfSSL. wolfSSL is not part of the sources: what it answers is
  a record of functions of the history so far, which is the most general deterministic library;
  the only hypothesis made of it is that it does not hand out a context that is in use.
\<close>

section \<open>The wolfSSL library\<close>

datatype tls_method = wolfTLSv1_2_client_method | wolfTLSv1_3_client_method

datatype version_macro = TLS1_2_VERSION | TLS1_3_VERSION

text \<open>The calls with an effect, with their arguments and results; a history has the latest call first.\<close>

datatype api_event =
    Ev_Init
  | Ev_New tls_method "addr option"
  | Ev_Free addr
  | Ev_Set_Min addr version_macro int
  | Ev_Set_Ciphers addr string int

record wolfssl =
  ctx_new_result :: "api_event list \<Rightarrow> tls_method \<Rightarrow> addr option"
  ctx_cert_manager :: "api_event list \<Rightarrow> addr option \<Rightarrow> addr option"
  set_min_result :: "api_event list \<Rightarrow> addr \<Rightarrow> version_macro \<Rightarrow> int"
  set_cipher_result :: "api_event list \<Rightarrow> addr \<Rightarrow> string \<Rightarrow> int"
  SSL_SUCCESS :: int
  error_text :: "api_event list \<Rightarrow> string"

text \<open>The contexts allocated and not yet freed.\<close>

fun live :: "api_event list \<Rightarrow> addr set" where
  "live [] = {}"
| "live (Ev_New m (Some c) # h) = insert c (live h)"
| "live (Ev_Free c # h) = live h - {c}"
| "live (_ # h) = live h"

definition allocator_fresh :: "wolfssl \<Rightarrow> bool" where
  "allocator_fresh W \<longleftrightarrow> (\<forall>h m c. ctx_new_result W h m = Some c \<longrightarrow> c \<notin> live h)"

record world =
  events :: "api_event list"
  sslInitDone :: bool

definition log_event :: "api_event \<Rightarrow> world \<Rightarrow> world" where
  "log_event e w = w\<lparr>events := e # events w\<rparr>"

definition wolfSSL_CTX_new :: "wolfssl \<Rightarrow> tls_method \<Rightarrow> world \<Rightarrow> addr option \<times> world" where
  "wolfSSL_CTX_new W m w =
     (let r = ctx_new_result W (events w) m in (r, log_event (Ev_New m r) w))"

text \<open>\<open>std::call_once(sslInitDone, []() { wolfSSL_Init(); })\<close>\<close>

definition call_once_init :: "world \<Rightarrow> world" where
  "call_once_init w = (if sslInitDone w then w else (log_event Ev_Init w)\<lparr>sslInitDone := True\<rparr>)"

section \<open>The class\<close>

text \<open>The members: two references, and two pointers into wolfSSL.\<close>

record SSLContext =
  sc_options :: addr
  sc_pkiEnv :: addr
  sc_ctx :: "addr option"
  sc_cm :: "addr option"

definition getNativeHandle :: "SSLContext \<Rightarrow> addr option" where
  "getNativeHandle this = sc_ctx this"

definition raiseSSLError :: "wolfssl \<Rightarrow> string \<Rightarrow> world \<Rightarrow> exn" where
  "raiseSSLError W message w = Runtime_Error (message @ '': '' @ error_text W (events w))"

text \<open>The \<open>if\<close> chain on the version, up to the two calls it chooses between.\<close>

definition client_method :: "ProtocolVersion \<Rightarrow> (tls_method \<times> version_macro) result" where
  "client_method protocolVersion =
     (if protocolVersion = TLSV1_2 then Inr (wolfTLSv1_2_client_method, TLS1_2_VERSION)
      else if protocolVersion = TLSV1_3 then Inr (wolfTLSv1_3_client_method, TLS1_3_VERSION)
      else rbind (getProtocolVersionName protocolVersion) (\<lambda>protocolVersionName.
        Inl (Runtime_Error (''Unsupported protocol version: '' @ protocolVersionName))))"

text \<open>\<open>std::accumulate\<close> over the ciphers with the delimiter \<open>":"\<close>.\<close>

definition join_ciphers :: "string list \<Rightarrow> string" where
  "join_ciphers supportedCiphers = (case supportedCiphers of
     [] \<Rightarrow> []
   | c # cs \<Rightarrow> foldl (\<lambda>a b. (a @ '':'') @ b) c cs)"

definition ssl_construct ::
  "wolfssl \<Rightarrow> addr \<Rightarrow> SSLOptions \<Rightarrow> addr \<Rightarrow> world \<Rightarrow> SSLContext result \<times> world" where
  "ssl_construct W optionsRef options pkiEnvRef w =
     (let w1 = call_once_init w in
      case client_method (minimumSupportedProtocolVersion options) of
        Inl e \<Rightarrow> (Inl e, w1)
      | Inr (method, version) \<Rightarrow>
          (case wolfSSL_CTX_new W method w1 of
             (None, w2) \<Rightarrow> (Inl (raiseSSLError W ''Failed to allocate WolfSSL context'' w2), w2)
           | (Some ctx, w2) \<Rightarrow>
               (let w3 = log_event (Ev_Set_Min ctx version (set_min_result W (events w2) ctx version)) w2;
                    cm = ctx_cert_manager W (events w3) (Some ctx);
                    joinedCiphers = c_str (join_ciphers (ciphers options));
                    ret = set_cipher_result W (events w3) ctx joinedCiphers;
                    w4 = log_event (Ev_Set_Ciphers ctx joinedCiphers ret) w3
                in if ret \<noteq> SSL_SUCCESS W then
                     (Inl (Runtime_Error (''Failed to set cipher list: '' @ error_text W (events w4))), w4)
                   else
                     (Inr \<lparr>sc_options = optionsRef, sc_pkiEnv = pkiEnvRef, sc_ctx = Some ctx, sc_cm = cm\<rparr>, w4))))"

definition ssl_copy_construct :: "wolfssl \<Rightarrow> SSLContext \<Rightarrow> world \<Rightarrow> SSLContext \<times> world" where
  "ssl_copy_construct W other w =
     (case wolfSSL_CTX_new W wolfTLSv1_3_client_method w of (ctx, w1) \<Rightarrow>
       (\<lparr>sc_options = sc_options other, sc_pkiEnv = sc_pkiEnv other, sc_ctx = ctx,
         sc_cm = ctx_cert_manager W (events w1) ctx\<rparr>, w1))"

text \<open>The new object, and what is left of \<open>other\<close>.\<close>

definition ssl_move_construct :: "SSLContext \<Rightarrow> SSLContext \<times> SSLContext" where
  "ssl_move_construct other =
     (\<lparr>sc_options = sc_options other, sc_pkiEnv = sc_pkiEnv other, sc_ctx = sc_ctx other, sc_cm = sc_cm other\<rparr>,
      other\<lparr>sc_ctx := None, sc_cm := None\<rparr>)"

definition free_if_set :: "addr option \<Rightarrow> world \<Rightarrow> world" where
  "free_if_set ctx w = (case ctx of None \<Rightarrow> w | Some c \<Rightarrow> log_event (Ev_Free c) w)"

definition ssl_destroy :: "SSLContext \<Rightarrow> world \<Rightarrow> world" where
  "ssl_destroy this w = free_if_set (sc_ctx this) w"

text \<open>
  The assignments; the flag says whether both sides are the same object (\<open>this == &other\<close>).
  References cannot be assigned, and neither operator assigns \<open>cm\<close>.
\<close>

definition ssl_copy_assign ::
  "wolfssl \<Rightarrow> bool \<Rightarrow> SSLContext \<Rightarrow> SSLContext \<Rightarrow> world \<Rightarrow> SSLContext \<times> world" where
  "ssl_copy_assign W same this other w =
     (if \<not> same then
        (case wolfSSL_CTX_new W wolfTLSv1_3_client_method (free_if_set (sc_ctx this) w) of
           (ctx, w1) \<Rightarrow> (this\<lparr>sc_ctx := ctx\<rparr>, w1))
      else (this, w))"

definition ssl_move_assign ::
  "bool \<Rightarrow> SSLContext \<Rightarrow> SSLContext \<Rightarrow> world \<Rightarrow> SSLContext \<times> SSLContext \<times> world" where
  "ssl_move_assign same this other w =
     (if \<not> same then
        (this\<lparr>sc_ctx := sc_ctx other\<rparr>, other\<lparr>sc_ctx := None\<rparr>, free_if_set (sc_ctx this) w)
      else (this, other, w))"

section \<open>Programs over contexts\<close>

text \<open>
  The objects of a program by name, and the world. A step is one operation on them; a
  constructor that throws leaves no object.
\<close>

record ssl_sys =
  objs :: "nat \<rightharpoonup> SSLContext"
  wd :: world

definition ssl_init :: "ssl_sys \<Rightarrow> bool" where
  "ssl_init s \<longleftrightarrow> s = \<lparr>objs = Map.empty, wd = \<lparr>events = [], sslInitDone = False\<rparr>\<rparr>"

inductive ssl_step :: "wolfssl \<Rightarrow> ssl_sys \<Rightarrow> ssl_sys \<Rightarrow> bool" for W where
  construct: "objs s i = None \<Longrightarrow> ssl_construct W optRef opts envRef (wd s) = (Inr x, w') \<Longrightarrow>
    ssl_step W s \<lparr>objs = (objs s)(i \<mapsto> x), wd = w'\<rparr>"
| construct_throws: "ssl_construct W optRef opts envRef (wd s) = (Inl e, w') \<Longrightarrow>
    ssl_step W s \<lparr>objs = objs s, wd = w'\<rparr>"
| copy_construct: "objs s i = None \<Longrightarrow> objs s j = Some y \<Longrightarrow> ssl_copy_construct W y (wd s) = (x, w') \<Longrightarrow>
    ssl_step W s \<lparr>objs = (objs s)(i \<mapsto> x), wd = w'\<rparr>"
| move_construct: "objs s i = None \<Longrightarrow> objs s j = Some y \<Longrightarrow> ssl_move_construct y = (x, y') \<Longrightarrow>
    ssl_step W s \<lparr>objs = (objs s)(i \<mapsto> x, j \<mapsto> y'), wd = wd s\<rparr>"
| copy_assign: "objs s i = Some x \<Longrightarrow> objs s j = Some y \<Longrightarrow>
    ssl_copy_assign W (i = j) x y (wd s) = (x', w') \<Longrightarrow>
    ssl_step W s \<lparr>objs = (objs s)(i \<mapsto> x'), wd = w'\<rparr>"
| move_assign: "objs s i = Some x \<Longrightarrow> objs s j = Some y \<Longrightarrow>
    ssl_move_assign (i = j) x y (wd s) = (x', y', w') \<Longrightarrow>
    ssl_step W s \<lparr>objs = (objs s)(i \<mapsto> x', j \<mapsto> y'), wd = w'\<rparr>"
| destroy: "objs s i = Some x \<Longrightarrow>
    ssl_step W s \<lparr>objs = (objs s)(i := None), wd = ssl_destroy x (wd s)\<rparr>"

section \<open>Lawful histories and ownership\<close>

text \<open>
  A history is lawful when the library was initialized first and once, every context handed out
  was not in use, and every context freed or configured was.
\<close>

fun lawful :: "api_event list \<Rightarrow> bool" where
  "lawful [] = True"
| "lawful (Ev_Init # h) = (h = [])"
| "lawful (Ev_New m r # h) = (h \<noteq> [] \<and> lawful h \<and> (case r of None \<Rightarrow> True | Some c \<Rightarrow> c \<notin> live h))"
| "lawful (Ev_Free c # h) = (c \<in> live h \<and> lawful h)"
| "lawful (Ev_Set_Min c v q # h) = (c \<in> live h \<and> lawful h)"
| "lawful (Ev_Set_Ciphers c s r # h) = (c \<in> live h \<and> lawful h)"

text \<open>The contexts whose cipher list the library refused.\<close>

fun rejected :: "int \<Rightarrow> api_event list \<Rightarrow> addr set" where
  "rejected ok [] = {}"
| "rejected ok (Ev_Set_Ciphers c s r # h) = (if r \<noteq> ok then insert c (rejected ok h) else rejected ok h)"
| "rejected ok (_ # h) = rejected ok h"

definition own_inv :: "int \<Rightarrow> (nat \<rightharpoonup> addr) \<Rightarrow> api_event list \<Rightarrow> bool" where
  "own_inv ok own h \<longleftrightarrow> lawful h
     \<and> (\<forall>i j c. own i = Some c \<and> own j = Some c \<longrightarrow> i = j)
     \<and> live h = ran own \<union> rejected ok h
     \<and> (\<forall>i c. own i = Some c \<longrightarrow> c \<notin> rejected ok h)"

lemma rejected_live: "own_inv ok own h \<Longrightarrow> rejected ok h \<subseteq> live h"
  by (auto simp: own_inv_def)

lemma ran_new: "own i = None \<Longrightarrow> ran (own(i := r)) = ran own \<union> set_option r"
  by (cases r) (auto simp: fun_upd_idem)

lemma ran_drop:
  assumes "\<forall>i j c. own i = Some c \<and> own j = Some c \<longrightarrow> i = j" "own i = Some c"
  shows "ran (own(i := None)) = ran own - {c}"
proof (intro set_eqI iffI)
  fix x assume "x \<in> ran own - {c}"
  then obtain k where "own k = Some x" "x \<noteq> c" by (auto simp: ran_def)
  with assms(2) have "(own(i := None)) k = Some x" by auto
  then show "x \<in> ran (own(i := None))" by (rule ranI)
next
  fix x assume "x \<in> ran (own(i := None))"
  then obtain k where "k \<noteq> i" "own k = Some x" by (auto simp: ran_def split: if_splits)
  with assms show "x \<in> ran own - {c}" by (auto intro: ranI)
qed

lemma ran_move:
  assumes "own i = None"
  shows "ran (own(i := own j, j := None)) = ran own"
proof (intro set_eqI iffI)
  fix x assume "x \<in> ran own"
  then obtain k where k: "own k = Some x" by (auto simp: ran_def)
  with assms have "i \<noteq> k" by auto
  show "x \<in> ran (own(i := own j, j := None))"
  proof (cases "k = j")
    case True
    with k \<open>i \<noteq> k\<close> show ?thesis by (intro ranI [of _ i]) simp
  next
    case False
    with k \<open>i \<noteq> k\<close> show ?thesis by (intro ranI [of _ k]) simp
  qed
qed (auto simp: ran_def split: if_splits)

lemma own_init: "own_inv ok Map.empty [Ev_Init]"
  by (simp add: own_inv_def)

lemma own_new:
  assumes "own_inv ok own h" "h \<noteq> []" "own i = None" "\<And>c. r = Some c \<Longrightarrow> c \<notin> live h"
  shows "own_inv ok (own(i := r)) (Ev_New m r # h)"
proof (cases r)
  case None
  with assms show ?thesis by (simp add: own_inv_def fun_upd_idem)
next
  case (Some c)
  with assms have "c \<notin> ran own" "c \<notin> rejected ok h" by (auto simp: own_inv_def)
  with assms Some show ?thesis
    by (auto simp: own_inv_def ran_new intro: ranI)
qed

lemma own_free:
  assumes "own_inv ok own h" "own i = Some c"
  shows "own_inv ok (own(i := None)) (Ev_Free c # h)"
  using assms by (auto simp: own_inv_def ran_drop intro: ranI)

lemma own_move:
  assumes "own_inv ok own h" "own i = None"
  shows "own_inv ok (own(i := own j, j := None)) h"
  using assms ran_move [of own i j] by (auto simp: own_inv_def split: if_splits)

lemma own_set_min: "own_inv ok own h \<Longrightarrow> own i = Some c \<Longrightarrow> own_inv ok own (Ev_Set_Min c v q # h)"
  by (auto simp: own_inv_def intro: ranI)

lemma own_ciphers_accepted:
  "own_inv ok own h \<Longrightarrow> own i = Some c \<Longrightarrow> own_inv ok own (Ev_Set_Ciphers c s ok # h)"
  by (auto simp: own_inv_def intro: ranI)

text \<open>A context whose cipher list is refused stays allocated, owned by no object.\<close>

lemma own_rejected:
  assumes "own_inv ok own h" "h \<noteq> []" "c \<notin> live h" "r \<noteq> ok"
  shows "own_inv ok own (Ev_Set_Ciphers c s r # Ev_Set_Min c v q # Ev_New m (Some c) # h)"
proof -
  from assms(1,3) have "c \<notin> ran own" by (auto simp: own_inv_def)
  with assms show ?thesis by (auto simp: own_inv_def intro: ranI)
qed

lemma own_new_failed: "own_inv ok own h \<Longrightarrow> h \<noteq> [] \<Longrightarrow> own_inv ok own (Ev_New m None # h)"
  by (simp add: own_inv_def)

section \<open>The invariant of a program\<close>

definition handles :: "(nat \<rightharpoonup> SSLContext) \<Rightarrow> (nat \<rightharpoonup> addr)" where
  "handles os = (\<lambda>i. Option.bind (os i) sc_ctx)"

lemma handles_upd [simp]: "handles (os(i \<mapsto> x)) = (handles os)(i := sc_ctx x)"
  by (auto simp: handles_def)

lemma handles_del [simp]: "handles (os(i := None)) = (handles os)(i := None)"
  by (auto simp: handles_def)

lemma handles_at [simp]:
  "os i = Some x \<Longrightarrow> handles os i = sc_ctx x" "os i = None \<Longrightarrow> handles os i = None"
  by (auto simp: handles_def)

lemma handles_empty [simp]: "handles Map.empty = Map.empty"
  by (simp add: handles_def)

definition world_ok :: "wolfssl \<Rightarrow> (nat \<rightharpoonup> addr) \<Rightarrow> world \<Rightarrow> bool" where
  "world_ok W own w \<longleftrightarrow> own_inv (SSL_SUCCESS W) own (events w) \<and> (sslInitDone w \<longleftrightarrow> events w \<noteq> [])"

definition ssl_inv :: "wolfssl \<Rightarrow> ssl_sys \<Rightarrow> bool" where
  "ssl_inv W s \<longleftrightarrow> world_ok W (handles (objs s)) (wd s) \<and> (objs s \<noteq> Map.empty \<longrightarrow> events (wd s) \<noteq> [])"

named_theorems world_simps \<open>what the calls do to the history\<close>

lemma log_event_simps [simp, world_simps]:
  "events (log_event e w) = e # events w" "sslInitDone (log_event e w) = sslInitDone w"
  by (simp_all add: log_event_def)

lemma wolfSSL_CTX_new_eq [world_simps]:
  "wolfSSL_CTX_new W m w =
     (ctx_new_result W (events w) m, log_event (Ev_New m (ctx_new_result W (events w) m)) w)"
  by (simp add: wolfSSL_CTX_new_def Let_def)

lemma world_ok_init: "world_ok W own w \<Longrightarrow> world_ok W own (call_once_init w) \<and> events (call_once_init w) \<noteq> []"
proof (cases "sslInitDone w")
  case False
  assume ok: "world_ok W own w"
  with False have h: "events w = []" by (auto simp: world_ok_def)
  with ok have "ran own = {}" by (auto simp: world_ok_def own_inv_def)
  then have "own = Map.empty" by (auto simp: ran_def fun_eq_iff) (metis not_None_eq)
  with False h own_init show ?thesis by (simp add: world_ok_def call_once_init_def)
qed (auto simp: world_ok_def call_once_init_def)

lemma world_ok_new:
  assumes "allocator_fresh W" "world_ok W own w" "events w \<noteq> []" "own i = None"
    and "wolfSSL_CTX_new W m w = (r, w')"
  shows "world_ok W (own(i := r)) w' \<and> events w' \<noteq> []"
proof -
  from assms(5) have r: "r = ctx_new_result W (events w) m" "w' = log_event (Ev_New m r) w"
    by (auto simp: wolfSSL_CTX_new_eq)
  with assms(1) have "c \<notin> live (events w)" if "r = Some c" for c
    using that by (auto simp: allocator_fresh_def)
  with assms r own_new [of "SSL_SUCCESS W" own "events w" i r m] show ?thesis
    by (simp add: world_ok_def)
qed

lemma world_ok_free:
  assumes "world_ok W own w" "own i = ctx"
  shows "world_ok W (own(i := None)) (free_if_set ctx w) \<and> (events w \<noteq> [] \<longrightarrow> events (free_if_set ctx w) \<noteq> [])"
proof (cases ctx)
  case None
  with assms show ?thesis by (simp add: free_if_set_def fun_upd_idem)
next
  case (Some c)
  with assms have "c \<in> live (events w)" by (auto simp: world_ok_def own_inv_def intro: ranI)
  then have "events w \<noteq> []" by auto
  with assms Some own_free [of "SSL_SUCCESS W" own "events w" i c] show ?thesis
    by (simp add: free_if_set_def world_ok_def)
qed

lemma ssl_construct_cases:
  assumes "ssl_construct W optRef opts envRef w = (r, w')"
  obtains (unsupported) e where "client_method (minimumSupportedProtocolVersion opts) = Inl e"
      "r = Inl e" "w' = call_once_init w"
  | (unallocated) m v where "client_method (minimumSupportedProtocolVersion opts) = Inr (m, v)"
      "ctx_new_result W (events (call_once_init w)) m = None"
      "w' = log_event (Ev_New m None) (call_once_init w)"
      "r = Inl (raiseSSLError W ''Failed to allocate WolfSSL context'' w')"
  | (allocated) m v c ret where "client_method (minimumSupportedProtocolVersion opts) = Inr (m, v)"
      "ctx_new_result W (events (call_once_init w)) m = Some c"
      "events w' = Ev_Set_Ciphers c (c_str (join_ciphers (ciphers opts))) ret
         # Ev_Set_Min c v (set_min_result W (Ev_New m (Some c) # events (call_once_init w)) c v)
         # Ev_New m (Some c) # events (call_once_init w)"
      "sslInitDone w' = sslInitDone (call_once_init w)"
      "if ret = SSL_SUCCESS W
       then \<exists>x. r = Inr x \<and> sc_options x = optRef \<and> sc_pkiEnv x = envRef \<and> sc_ctx x = Some c
       else r = Inl (Runtime_Error (''Failed to set cipher list: '' @ error_text W (events w')))"
proof (cases "client_method (minimumSupportedProtocolVersion opts)")
  case (Inl e)
  with assms show ?thesis by (intro unsupported [of e]) (auto simp: ssl_construct_def)
next
  case (Inr mv)
  obtain m v where mv: "mv = (m, v)" by fastforce
  show ?thesis
  proof (cases "ctx_new_result W (events (call_once_init w)) m")
    case None
    with assms Inr mv show ?thesis
      by (intro unallocated [of m v]) (auto simp: ssl_construct_def wolfSSL_CTX_new_eq Let_def)
  next
    case (Some c)
    with assms Inr mv show ?thesis
      by (intro allocated [of m v c "set_cipher_result W (Ev_Set_Min c v
            (set_min_result W (Ev_New m (Some c) # events (call_once_init w)) c v) # Ev_New m (Some c) # events (call_once_init w)) c
            (c_str (join_ciphers (ciphers opts)))"])
        (auto simp: ssl_construct_def wolfSSL_CTX_new_eq Let_def split: if_splits)
  qed
qed

lemma ssl_construct_throws_ok:
  assumes fr: "allocator_fresh W" and ok: "world_ok W own w"
    and mk: "ssl_construct W optRef opts envRef w = (Inl e, w')"
  shows "world_ok W own w' \<and> events w' \<noteq> []"
proof -
  note init = world_ok_init [OF ok]
  from mk show ?thesis
  proof (cases rule: ssl_construct_cases)
    case (unsupported e)
    with init show ?thesis by simp
  next
    case (unallocated m v)
    with init show ?thesis by (simp add: world_ok_def own_new_failed)
  next
    case (allocated m v c ret)
    from fr allocated(2) have c: "c \<notin> live (events (call_once_init w))"
      by (auto simp: allocator_fresh_def)
    have o: "own_inv (SSL_SUCCESS W) own (events (call_once_init w))" "events (call_once_init w) \<noteq> []"
      using init by (auto simp: world_ok_def)
    from allocated(5) have "ret \<noteq> SSL_SUCCESS W" by (auto split: if_splits)
    with allocated init own_rejected [OF o c this] show ?thesis
      by (simp add: world_ok_def)
  qed
qed

lemma ssl_construct_ok:
  assumes fr: "allocator_fresh W" and ok: "world_ok W own w" and i: "own i = None"
    and mk: "ssl_construct W optRef opts envRef w = (Inr x, w')"
  shows "world_ok W (own(i := sc_ctx x)) w' \<and> events w' \<noteq> []"
proof -
  note init = world_ok_init [OF ok]
  from mk show ?thesis
  proof (cases rule: ssl_construct_cases)
    case (allocated m v c ret)
    from fr allocated(2) have c: "c \<notin> live (events (call_once_init w))"
      by (auto simp: allocator_fresh_def)
    have o: "own_inv (SSL_SUCCESS W) own (events (call_once_init w))" "events (call_once_init w) \<noteq> []"
      using init by (auto simp: world_ok_def)
    from allocated(5) have ret: "ret = SSL_SUCCESS W" and x: "sc_ctx x = Some c"
      by (auto split: if_splits)
    have "own_inv (SSL_SUCCESS W) (own(i \<mapsto> c)) (Ev_New m (Some c) # events (call_once_init w))"
      using own_new [OF o i, of "Some c" m] c by simp
    then have "own_inv (SSL_SUCCESS W) (own(i \<mapsto> c)) (events w')"
      unfolding allocated(3) ret
      by (intro own_ciphers_accepted [of _ _ _ i] own_set_min [of _ _ _ i]) simp_all
    with x allocated init show ?thesis by (simp add: world_ok_def)
  qed simp_all
qed

lemma ssl_step_inv:
  assumes fr: "allocator_fresh W" and st: "ssl_step W s t" and inv: "ssl_inv W s"
  shows "ssl_inv W t"
  using st inv
proof (induction rule: ssl_step.induct)
  case (construct s i optRef opts envRef x w')
  then show ?case
    using ssl_construct_ok [OF fr _ _ construct(2), of "handles (objs s)" i] by (simp add: ssl_inv_def)
next
  case (construct_throws optRef opts envRef s e w')
  then obtain h where h: "h = handles (objs s)" "world_ok W h (wd s)" by (simp add: ssl_inv_def)
  show ?case
    using ssl_construct_throws_ok [OF fr h(2) construct_throws(1)] h(1) by (simp add: ssl_inv_def)
next
  case (copy_construct s i j y x w')
  then have "wolfSSL_CTX_new W wolfTLSv1_3_client_method (wd s) = (sc_ctx x, w')" "events (wd s) \<noteq> []"
    by (auto simp: ssl_copy_construct_def ssl_inv_def split: prod.splits)
  with copy_construct show ?case
    using world_ok_new [OF fr, of "handles (objs s)" "wd s" i] by (simp add: ssl_inv_def)
next
  case (move_construct s i j y x y')
  then have ij: "i \<noteq> j" by auto
  from move_construct have "sc_ctx x = sc_ctx y" "sc_ctx y' = None" by (auto simp: ssl_move_construct_def)
  with move_construct ij own_move [of "SSL_SUCCESS W" "handles (objs s)" _ i j] show ?case
    by (auto simp: ssl_inv_def world_ok_def)
next
  case (copy_assign s i x j y x' w')
  show ?case
  proof (cases "i = j")
    case True
    with copy_assign show ?thesis by (auto simp: ssl_copy_assign_def ssl_inv_def fun_upd_idem)
  next
    case False
    let ?w = "free_if_set (sc_ctx x) (wd s)"
    from False copy_assign have "wolfSSL_CTX_new W wolfTLSv1_3_client_method ?w = (sc_ctx x', w')"
      by (auto simp: ssl_copy_assign_def split: prod.splits)
    moreover have "world_ok W ((handles (objs s))(i := None)) ?w \<and> events ?w \<noteq> []"
      using copy_assign world_ok_free [of W "handles (objs s)" "wd s" i "sc_ctx x"] by (auto simp: ssl_inv_def)
    ultimately show ?thesis
      using world_ok_new [OF fr, of "(handles (objs s))(i := None)" ?w i] by (simp add: ssl_inv_def)
  qed
next
  case (move_assign s i x j y x' y' w')
  show ?case
  proof (cases "i = j")
    case True
    with move_assign show ?thesis by (auto simp: ssl_move_assign_def ssl_inv_def fun_upd_idem)
  next
    case False
    from False move_assign have e: "sc_ctx x' = sc_ctx y" "sc_ctx y' = None" "w' = free_if_set (sc_ctx x) (wd s)"
      by (auto simp: ssl_move_assign_def)
    have w: "world_ok W ((handles (objs s))(i := None)) w' \<and> events w' \<noteq> []"
      using move_assign e world_ok_free [of W "handles (objs s)" "wd s" i "sc_ctx x"] by (auto simp: ssl_inv_def)
    with False move_assign e own_move [of "SSL_SUCCESS W" "(handles (objs s))(i := None)" "events w'" i j]
    show ?thesis by (simp add: ssl_inv_def world_ok_def)
  qed
next
  case (destroy s i x)
  then show ?case
    using world_ok_free [of W "handles (objs s)" "wd s" i "sc_ctx x"]
    by (auto simp: ssl_inv_def ssl_destroy_def)
qed

lemma ssl_inv_init: "ssl_init s \<Longrightarrow> ssl_inv W s"
  by (simp add: ssl_init_def ssl_inv_def world_ok_def own_inv_def)

interpretation ssl: transition_system ssl_init "ssl_step W" "\<lambda>s. allocator_fresh W \<longrightarrow> ssl_inv W s" for W
  by unfold_locales (auto intro: ssl_inv_init ssl_step_inv)

section \<open>What a history says of a context\<close>

text \<open>
  The method, the minimum version asked for and the accepted cipher list of a context. The code looks at the result
  for the ciphers and not at the one for the version, so the version counts as asked for in either case.
\<close>

fun ctx_config ::
  "int \<Rightarrow> api_event list \<Rightarrow> addr \<Rightarrow> (tls_method \<times> version_macro option \<times> string option) option" where
  "ctx_config ok [] c = None"
| "ctx_config ok (Ev_New m r # h) c = (if r = Some c then Some (m, None, None) else ctx_config ok h c)"
| "ctx_config ok (Ev_Free d # h) c = (if d = c then None else ctx_config ok h c)"
| "ctx_config ok (Ev_Set_Min d v q # h) c =
     (if d = c then map_option (\<lambda>(m, _, s). (m, Some v, s)) (ctx_config ok h c) else ctx_config ok h c)"
| "ctx_config ok (Ev_Set_Ciphers d s r # h) c =
     (if d = c \<and> r = ok then map_option (\<lambda>(m, v, _). (m, v, Some s)) (ctx_config ok h c)
      else ctx_config ok h c)"
| "ctx_config ok (Ev_Init # h) c = ctx_config ok h c"

text \<open>Splitting at a delimiter, the inverse of joining.\<close>

fun split_at :: "char \<Rightarrow> string \<Rightarrow> string list" where
  "split_at d [] = [[]]"
| "split_at d (c # cs) = (if c = d then [] # split_at d cs
     else (case split_at d cs of [] \<Rightarrow> [[c]] | x # xs \<Rightarrow> (c # x) # xs))"

lemma split_at_nonempty: "split_at d s \<noteq> []"
  by (induction s) (auto split: list.splits)

lemma split_at_plain: "d \<notin> set s \<Longrightarrow> split_at d s = [s]"
  by (induction s) auto

lemma split_at_append: "d \<notin> set t \<Longrightarrow> split_at d (s @ d # t) = split_at d s @ [t]"
proof (induction s)
  case Nil
  then show ?case by (simp add: split_at_plain)
next
  case (Cons c s)
  then show ?case using split_at_nonempty [of d s] by (auto split: list.splits)
qed

lemma split_join:
  "\<forall>c \<in> set cs. CHR '':'' \<notin> set c \<Longrightarrow>
     split_at CHR '':'' (foldl (\<lambda>a b. (a @ '':'') @ b) s cs) = split_at CHR '':'' s @ cs"
  by (induction cs arbitrary: s) (simp_all add: split_at_append)

text \<open>Every operation only adds to the history, and a refused context stays refused.\<close>

lemma rejected_append: "rejected ok h \<subseteq> rejected ok (es @ h)"
proof (induction es)
  case (Cons e es)
  then show ?case by (cases e) auto
qed simp

lemma free_if_set_extends: "\<exists>es. events (free_if_set c w) = es @ events w"
  by (cases c) (auto simp: free_if_set_def)

lemma call_once_extends: "\<exists>es. events (call_once_init w) = es @ events w"
  by (auto simp: call_once_init_def)

lemma ssl_construct_extends:
  assumes "ssl_construct W optRef opts envRef w = (r, w')"
  shows "\<exists>es. events w' = es @ events w"
proof -
  obtain es where es: "events (call_once_init w) = es @ events w"
    using call_once_extends by blast
  from assms show ?thesis
    by (cases rule: ssl_construct_cases) (auto simp: es)
qed

inductive_cases ssl_step_cases: "ssl_step W s t"

text \<open>An object disappears in its own destruction only.\<close>

lemma ssl_step_vanishes:
  assumes "ssl_step W s t" and "objs s i = Some x" and "objs t i = None"
  shows "wd t = ssl_destroy x (wd s)"
  using assms by (elim ssl_step_cases) (auto split: if_splits)

lemma ssl_step_extends: "ssl_step W s t \<Longrightarrow> \<exists>es. events (wd t) = es @ events (wd s)"
proof (induction rule: ssl_step.induct)
  case (copy_assign s i x j y x' w')
  obtain es where "events (free_if_set (sc_ctx x) (wd s)) = es @ events (wd s)"
    using free_if_set_extends by blast
  with copy_assign show ?case
    by (auto simp: ssl_copy_assign_def wolfSSL_CTX_new_eq split: if_splits)
next
  case (move_assign s i x j y x' y' w')
  then show ?case
    using free_if_set_extends [of "sc_ctx x" "wd s"] by (auto simp: ssl_move_assign_def split: if_splits)
next
  case (destroy s i x)
  then show ?case using free_if_set_extends [of "sc_ctx x" "wd s"] by (simp add: ssl_destroy_def)
qed (auto simp: ssl_copy_construct_def wolfSSL_CTX_new_eq dest: ssl_construct_extends)

lemma ssl_run_rejected: "(ssl_step W)\<^sup>*\<^sup>* s t \<Longrightarrow> rejected ok (events (wd s)) \<subseteq> rejected ok (events (wd t))"
proof (induction rule: rtranclp_induct)
  case (step t u)
  obtain es where "events (wd u) = es @ events (wd t)"
    using ssl_step_extends [OF step(2)] by blast
  with step(3) rejected_append [of ok "events (wd t)" es] show ?case by auto
qed simp

text \<open>What a lawful history means for one context: each free is of a live context, so between two
  frees of it wolfSSL has handed it out again; and a use needs a live context too.\<close>

fun_cases lawful_freeE: "lawful (Ev_Free c # h)"
  and lawful_setE: "lawful (Ev_Set_Ciphers c s r # h)" "lawful (Ev_Set_Min c v q # h)"
  and lawful_initE: "lawful (Ev_Init # h)"
  and lawful_newE: "lawful (Ev_New m r # h)"

lemma lawful_suffix: "lawful (es @ h) \<Longrightarrow> lawful h"
proof (induction es)
  case (Cons e es)
  then show ?case
    by (cases e) (auto elim: lawful_freeE lawful_setE lawful_initE lawful_newE)
qed simp

lemma live_append: "c \<in> live (es @ h) \<Longrightarrow> c \<in> live h \<or> (\<exists>m. Ev_New m (Some c) \<in> set es)"
  by (induction es rule: live.induct) auto

lemma lawful_free_free:
  assumes "lawful (h1 @ Ev_Free c # h2 @ Ev_Free c # h3)"
  shows "\<exists>m. Ev_New m (Some c) \<in> set h2"
proof -
  from lawful_suffix [OF assms] have "c \<in> live (h2 @ Ev_Free c # h3)"
    by (rule lawful_freeE)
  from live_append [OF this] show ?thesis by simp
qed

section \<open>A sample library\<close>

text \<open>It hands out the smallest address above all those in the history.\<close>

fun next_ctx :: "api_event list \<Rightarrow> addr" where
  "next_ctx [] = 1"
| "next_ctx (Ev_New m (Some c) # h) = max (Suc c) (next_ctx h)"
| "next_ctx (_ # h) = next_ctx h"

definition sample_wolfssl :: wolfssl where
  "sample_wolfssl = \<lparr>ctx_new_result = (\<lambda>h m. Some (next_ctx h)),
     ctx_cert_manager = (\<lambda>h c. map_option (\<lambda>a. a + 1000) c),
     set_min_result = (\<lambda>h c v. 1), set_cipher_result = (\<lambda>h c s. if s = [] then 0 else 1), SSL_SUCCESS = 1,
     error_text = (\<lambda>h. ''error'')\<rparr>"

lemma next_ctx_bound: "c \<in> live h \<Longrightarrow> c < next_ctx h"
  by (induction h rule: live.induct) auto

lemma sample_fresh: "allocator_fresh sample_wolfssl"
  by (auto simp: allocator_fresh_def sample_wolfssl_def dest: next_ctx_bound)

definition sample_options :: SSLOptions where
  "sample_options = \<lparr>peerType = SERVER, peerCertPath = None, minimumSupportedProtocolVersion = TLSV1_2,
     ciphers = [''A'', ''B'']\<rparr>"

definition sample_world :: world where
  "sample_world = \<lparr>events = [], sslInitDone = False\<rparr>"

definition sample_history :: "api_event list" where
  "sample_history = [Ev_Set_Ciphers 1 ''A:B'' 1, Ev_Set_Min 1 TLS1_2_VERSION 1,
     Ev_New wolfTLSv1_2_client_method (Some 1), Ev_Init]"

definition sample_ctx :: SSLContext where
  "sample_ctx = \<lparr>sc_options = 7, sc_pkiEnv = 8, sc_ctx = Some 1, sc_cm = Some 1001\<rparr>"

lemma sample_construct:
  "ssl_construct sample_wolfssl 7 sample_options 8 sample_world =
     (Inr sample_ctx, \<lparr>events = sample_history, sslInitDone = True\<rparr>)"
  by (simp add: ssl_construct_def call_once_init_def client_method_def wolfSSL_CTX_new_eq Let_def
      sample_wolfssl_def sample_options_def sample_world_def sample_history_def sample_ctx_def
      join_ciphers_def c_str_def NUL_def log_event_def)

lemma sample_rejected_construct:
  "ssl_construct sample_wolfssl 7 (sample_options\<lparr>ciphers := []\<rparr>) 8 sample_world =
     (Inl (Runtime_Error ''Failed to set cipher list: error''),
      \<lparr>events = [Ev_Set_Ciphers 1 [] 0, Ev_Set_Min 1 TLS1_2_VERSION 1,
         Ev_New wolfTLSv1_2_client_method (Some 1), Ev_Init], sslInitDone = True\<rparr>)"
  by (simp add: ssl_construct_def call_once_init_def client_method_def wolfSSL_CTX_new_eq Let_def
      sample_wolfssl_def sample_options_def sample_world_def
      join_ciphers_def c_str_def log_event_def)

lemma sample_reachable:
  "reachable ssl_init (ssl_step sample_wolfssl)
     \<lparr>objs = [0 \<mapsto> sample_ctx], wd = \<lparr>events = sample_history, sslInitDone = True\<rparr>\<rparr>"
proof (rule reachable_step)
  let ?s = "\<lparr>objs = Map.empty, wd = sample_world\<rparr>"
  show "reachable ssl_init (ssl_step sample_wolfssl) ?s"
    by (rule reachable_init) (simp add: ssl_init_def sample_world_def)
  show "ssl_step sample_wolfssl ?s \<lparr>objs = [0 \<mapsto> sample_ctx], wd = \<lparr>events = sample_history, sslInitDone = True\<rparr>\<rparr>"
    using ssl_step.construct [of ?s 0 sample_wolfssl 7 sample_options 8] sample_construct by simp
qed

section \<open>Properties\<close>

text \<open>C1: whatever a program does with contexts (constructions that succeed or throw, copies,
  moves, assignments, self-assignments, destructions, in any order), the calls it makes to wolfSSL
  are lawful: the library is initialized before anything else and once, and every context that is
  freed or configured is allocated at that moment; so between two frees of the same context
  wolfSSL has handed it out again.\<close>

theorem no_double_free:
  assumes "allocator_fresh W" and "reachable ssl_init (ssl_step W) s"
  shows "lawful (events (wd s))
     \<and> (\<forall>h1 h2 h3 c. events (wd s) = h1 @ Ev_Free c # h2 @ Ev_Free c # h3
          \<longrightarrow> (\<exists>m. Ev_New m (Some c) \<in> set h2))"
proof -
  have "lawful (events (wd s))"
    using ssl.inv_reachable [OF assms(2)] assms(1)
    by (simp add: ssl_inv_def world_ok_def own_inv_def)
  then show ?thesis using lawful_free_free by metis
qed

theorem no_double_free_witness:
  "lawful sample_history \<and> sample_history \<noteq> []"
  using no_double_free [OF sample_fresh sample_reachable] by (simp add: sample_history_def)

text \<open>C2: no two objects ever hold the same wolfSSL context, and the contexts allocated are exactly
  those that some object holds and those whose cipher list was refused: so once every object is
  destroyed, everything is freed but the latter.\<close>

theorem handles_are_owned_once:
  assumes "allocator_fresh W" and "reachable ssl_init (ssl_step W) s"
  shows "inj_on (handles (objs s)) (dom (handles (objs s)))
     \<and> live (events (wd s)) = ran (handles (objs s)) \<union> rejected (SSL_SUCCESS W) (events (wd s))
     \<and> ran (handles (objs s)) \<inter> rejected (SSL_SUCCESS W) (events (wd s)) = {}"
proof -
  have "own_inv (SSL_SUCCESS W) (handles (objs s)) (events (wd s))"
    using ssl.inv_reachable [OF assms(2)] assms(1) by (simp add: ssl_inv_def world_ok_def)
  then show ?thesis by (auto simp: own_inv_def inj_on_def ran_def)
qed

theorem handles_are_owned_once_witness:
  "live sample_history = {1}"
  using handles_are_owned_once [OF sample_fresh sample_reachable]
  by (simp add: sample_history_def)

text \<open>C36: a constructor whose cipher list wolfSSL refuses throws after it has allocated the
  context, which no object then owns: the context stays allocated for the rest of the program,
  whatever it does.\<close>

theorem refused_ciphers_leak:
  assumes "allocator_fresh W" and "reachable ssl_init (ssl_step W) s"
    and "ssl_construct W optRef opts envRef (wd s) = (r, w')"
    and "events w' = Ev_Set_Ciphers c joined ret # h" and "ret \<noteq> SSL_SUCCESS W"
    and "(ssl_step W)\<^sup>*\<^sup>* \<lparr>objs = objs s, wd = w'\<rparr> t"
  shows "throws r \<and> c \<in> live (events (wd t)) \<and> c \<notin> ran (handles (objs t))"
proof -
  from assms(3) have "\<exists>e. r = Inl e"
  proof (cases rule: ssl_construct_cases)
    case (allocated m v c' ret')
    with assms(4,5) show ?thesis by auto
  qed auto
  then obtain e where e: "r = Inl e" ..
  with assms(3) have "ssl_step W s \<lparr>objs = objs s, wd = w'\<rparr>"
    by (auto intro: ssl_step.construct_throws)
  with assms(1,2) have "ssl_inv W \<lparr>objs = objs s, wd = w'\<rparr>"
    using ssl.inv_reachable ssl_step_inv by blast
  with assms(1,6) have "ssl_inv W t" using ssl.inv_run by blast
  then have "own_inv (SSL_SUCCESS W) (handles (objs t)) (events (wd t))"
    by (simp add: ssl_inv_def world_ok_def)
  moreover have "c \<in> rejected (SSL_SUCCESS W) (events (wd t))"
    using ssl_run_rejected [OF assms(6), of "SSL_SUCCESS W"] assms(4,5) by auto
  ultimately show ?thesis using e by (auto simp: own_inv_def ran_def)
qed

theorem refused_ciphers_leak_witness:
  "\<exists>w'. fst (ssl_construct sample_wolfssl 7 (sample_options\<lparr>ciphers := []\<rparr>) 8 sample_world)
        = Inl (Runtime_Error ''Failed to set cipher list: error'')
     \<and> snd (ssl_construct sample_wolfssl 7 (sample_options\<lparr>ciphers := []\<rparr>) 8 sample_world) = w'
     \<and> 1 \<in> live (events w')"
proof -
  have "reachable ssl_init (ssl_step sample_wolfssl) \<lparr>objs = Map.empty, wd = sample_world\<rparr>"
    by (rule reachable_init) (simp add: ssl_init_def sample_world_def)
  from refused_ciphers_leak [OF sample_fresh this, of 7 "sample_options\<lparr>ciphers := []\<rparr>" 8]
  have "1 \<in> live (events (snd (ssl_construct sample_wolfssl 7 (sample_options\<lparr>ciphers := []\<rparr>) 8 sample_world)))"
    using sample_rejected_construct by (fastforce simp: sample_wolfssl_def)
  then show ?thesis by (simp add: sample_rejected_construct)
qed

text \<open>C23: a context that a constructor returns is configured as its options say: created by the
  method of the minimum version, with that minimum version asked for and the joined cipher list
  accepted.\<close>

theorem constructed_context_configured:
  assumes "ssl_construct W optRef opts envRef w = (Inr x, w')"
  shows "\<exists>c m v. getNativeHandle x = Some c
     \<and> client_method (minimumSupportedProtocolVersion opts) = Inr (m, v)
     \<and> ctx_config (SSL_SUCCESS W) (events w') c = Some (m, Some v, Some (c_str (join_ciphers (ciphers opts))))
     \<and> sc_options x = optRef \<and> sc_pkiEnv x = envRef"
  using assms
proof (cases rule: ssl_construct_cases)
  case (allocated m v c ret)
  then show ?thesis by (auto simp: getNativeHandle_def split: if_splits)
qed auto

theorem constructed_context_configured_witness:
  "ctx_config 1 sample_history 1 = Some (wolfTLSv1_2_client_method, Some TLS1_2_VERSION, Some ''A:B'')"
  using constructed_context_configured [OF sample_construct]
  by (auto simp: sample_ctx_def getNativeHandle_def client_method_def sample_options_def
      sample_wolfssl_def join_ciphers_def c_str_def NUL_def)

text \<open>The result of \<open>wolfSSL_CTX_set_min_proto_version\<close> is ignored: with a library that refuses every minimum
  version, the constructor returns all the same.\<close>

theorem minimum_version_result_is_ignored:
  "\<exists>x w'. ssl_construct (sample_wolfssl\<lparr>set_min_result := \<lambda>h c v. 0\<rparr>) 7 sample_options 8 sample_world = (Inr x, w')
     \<and> Ev_Set_Min 1 TLS1_2_VERSION 0 \<in> set (events w') \<and> SSL_SUCCESS sample_wolfssl \<noteq> 0"
  by (simp add: ssl_construct_def call_once_init_def client_method_def wolfSSL_CTX_new_eq Let_def
      sample_wolfssl_def sample_options_def sample_world_def join_ciphers_def c_str_def NUL_def log_event_def)



text \<open>The constructor depends on two options only, the minimum version and the ciphers. The
  peer type and the certificate path have no effect, and the options are not validated: options
  that \<open>validate\<close> refuses for a server without certificate give the same context, made by a
  client method, as those of a client.\<close>

theorem peer_type_is_ignored:
  assumes "minimumSupportedProtocolVersion opts' = minimumSupportedProtocolVersion opts"
    and "ciphers opts' = ciphers opts"
  shows "ssl_construct W optRef opts' envRef w = ssl_construct W optRef opts envRef w"
  unfolding ssl_construct_def assms by (rule refl)

theorem peer_type_is_ignored_witness:
  "throws (ssl_validate False sample_options)
   \<and> ssl_construct sample_wolfssl 7 (sample_options\<lparr>peerType := CLIENT\<rparr>) 8 sample_world
     = (Inr sample_ctx, \<lparr>events = sample_history, sslInitDone = True\<rparr>)"
proof -
  have "throws (ssl_validate False sample_options)"
    by (simp add: ssl_validate_def sample_options_def)
  with peer_type_is_ignored [of "sample_options\<lparr>peerType := CLIENT\<rparr>" sample_options sample_wolfssl 7 8 sample_world]
    sample_construct
  show ?thesis by simp
qed

text \<open>When wolfSSL cannot allocate a context, the constructor throws, but a copy does not: it
  yields an object with a null handle and reports nothing.\<close>

theorem copy_hides_allocation_failure:
  assumes "ctx_new_result W (events w) wolfTLSv1_3_client_method = None"
    and "sslInitDone w" and "minimumSupportedProtocolVersion opts = TLSV1_3"
  shows "fst (ssl_construct W optRef opts envRef w)
       = Inl (raiseSSLError W ''Failed to allocate WolfSSL context'' (log_event (Ev_New wolfTLSv1_3_client_method None) w))
     \<and> getNativeHandle (fst (ssl_copy_construct W x w)) = None"
  using assms
  by (simp add: ssl_construct_def ssl_copy_construct_def client_method_def call_once_init_def
      wolfSSL_CTX_new_eq getNativeHandle_def Let_def)

theorem copy_hides_allocation_failure_witness:
  "getNativeHandle (fst (ssl_copy_construct (sample_wolfssl\<lparr>ctx_new_result := \<lambda>_ _. None\<rparr>) sample_ctx
     \<lparr>events = sample_history, sslInitDone = True\<rparr>)) = None"
  by (rule copy_hides_allocation_failure [where opts = "sample_options\<lparr>minimumSupportedProtocolVersion := TLSV1_3\<rparr>",
      THEN conjunct2]) (simp_all add: sample_options_def)

text \<open>An assignment between different objects frees the target's context and, for a move, takes
  the source's, leaving the source without one; but it does not assign the certificate manager,
  which in the target remains that of the freed context. Assigning an object to itself changes
  nothing.\<close>

theorem assignments_leave_stale_manager:
  assumes "sc_ctx this = Some c"
  shows "(case ssl_move_assign False this other w of (this', other', w') \<Rightarrow>
        getNativeHandle this' = getNativeHandle other \<and> getNativeHandle other' = None
      \<and> c \<notin> live (events w') \<and> sc_cm this' = sc_cm this)
   \<and> (case ssl_copy_assign W False this other w of (this', w') \<Rightarrow>
        (\<exists>h. events w' = Ev_New wolfTLSv1_3_client_method (getNativeHandle this') # h \<and> c \<notin> live h)
      \<and> sc_cm this' = sc_cm this)
   \<and> ssl_move_assign True this other w = (this, other, w) \<and> ssl_copy_assign W True this other w = (this, w)"
  using assms
  by (simp add: ssl_move_assign_def ssl_copy_assign_def free_if_set_def wolfSSL_CTX_new_eq getNativeHandle_def)

theorem assignments_leave_stale_manager_witness:
  "case ssl_move_assign False sample_ctx \<lparr>sc_options = 7, sc_pkiEnv = 8, sc_ctx = Some 2, sc_cm = Some 1002\<rparr>
      \<lparr>events = sample_history, sslInitDone = True\<rparr> of
     (x, _, _) \<Rightarrow> getNativeHandle x = Some 2 \<and> sc_cm x = Some 1001"
proof -
  have "sc_ctx sample_ctx = Some 1" by (simp add: sample_ctx_def)
  from assignments_leave_stale_manager [OF this, of "\<lparr>sc_options = 7, sc_pkiEnv = 8, sc_ctx = Some 2, sc_cm = Some 1002\<rparr>"
      "\<lparr>events = sample_history, sslInitDone = True\<rparr>"]
  show ?thesis by (auto simp: sample_ctx_def getNativeHandle_def)
qed

text \<open>C32: the cipher string loses nothing: splitting it at the colons gives the list of ciphers
  back, for any list that is not empty and whose names contain no colon.\<close>

theorem cipher_string_roundtrip:
  assumes "cs \<noteq> []" and "\<forall>c \<in> set cs. CHR '':'' \<notin> set c"
  shows "split_at CHR '':'' (join_ciphers cs) = cs"
  using assms by (cases cs) (simp_all add: join_ciphers_def split_join split_at_plain)

theorem cipher_string_roundtrip_witness:
  "split_at CHR '':'' (join_ciphers [''TLS_A'', ''TLS_B'', ''TLS_C'']) = [''TLS_A'', ''TLS_B'', ''TLS_C'']"
  by (rule cipher_string_roundtrip) simp_all

end
