(* ===== verification/Iggy_Cleanup.thy ===== *)
theory Iggy_Cleanup
  imports Iggy_SslContext
begin

text \<open>
  The end of a program over SSL contexts: its objects are destroyed, in any order. From every
  state that a program can reach this terminates, and frees every context that can be freed.
\<close>

section \<open>Destructions only\<close>

inductive cleanup_step :: "ssl_sys \<Rightarrow> ssl_sys \<Rightarrow> bool" where
  "objs s i = Some x \<Longrightarrow> cleanup_step s \<lparr>objs = (objs s)(i := None), wd = ssl_destroy x (wd s)\<rparr>"

inductive_cases cleanup_stepE: "cleanup_step s t"

lemma cleanup_step_ssl: "cleanup_step s t \<Longrightarrow> ssl_step W s t"
  by (elim cleanup_stepE) (simp add: ssl_step.destroy)

lemma cleanup_run_ssl: "cleanup_step\<^sup>*\<^sup>* s t \<Longrightarrow> (ssl_step W)\<^sup>*\<^sup>* s t"
  by (induction rule: rtranclp_induct) (auto intro: rtranclp.rtrancl_into_rtrancl cleanup_step_ssl)

lemma cleanup_stuck: "(\<forall>t. \<not> cleanup_step s t) \<longleftrightarrow> objs s = Map.empty"
proof
  assume stuck: "\<forall>t. \<not> cleanup_step s t"
  show "objs s = Map.empty"
  proof
    fix i show "objs s i = None"
      using stuck cleanup_step.intros [of s i] by (cases "objs s i") auto
  qed
qed (auto elim: cleanup_stepE)

text \<open>A program creates finitely many objects.\<close>

lemma ssl_step_finite: "ssl_step W s t \<Longrightarrow> finite (dom (objs s)) \<Longrightarrow> finite (dom (objs t))"
  by (induction rule: ssl_step.induct) simp_all

lemma ssl_finite: "reachable ssl_init (ssl_step W) s \<Longrightarrow> finite (dom (objs s))"
  by (induction rule: reachable.induct) (auto simp: ssl_init_def intro: ssl_step_finite)

text \<open>What a clean-up run keeps: the set of refused contexts, which no call adds to.\<close>

lemma cleanup_step_rejected: "cleanup_step s t \<Longrightarrow> rejected ok (events (wd t)) = rejected ok (events (wd s))"
  by (elim cleanup_stepE) (auto simp: ssl_destroy_def free_if_set_def split: option.splits)

definition cleanup_inv :: "wolfssl \<Rightarrow> ssl_sys \<Rightarrow> ssl_sys \<Rightarrow> bool" where
  "cleanup_inv W s0 s \<longleftrightarrow> finite (dom (objs s)) \<and> (allocator_fresh W \<longrightarrow> ssl_inv W s)
     \<and> rejected (SSL_SUCCESS W) (events (wd s)) = rejected (SSL_SUCCESS W) (events (wd s0))"

definition cleanup_init :: "wolfssl \<Rightarrow> ssl_sys \<Rightarrow> ssl_sys \<Rightarrow> bool" where
  "cleanup_init W s0 s \<longleftrightarrow> s = s0 \<and> reachable ssl_init (ssl_step W) s0"

lemma cleanup_step_inv: "cleanup_inv W s0 s \<Longrightarrow> cleanup_step s t \<Longrightarrow> cleanup_inv W s0 t"
  using cleanup_step_ssl [of s t W]
  by (auto simp: cleanup_inv_def cleanup_step_rejected intro: ssl_step_finite ssl_step_inv)

lemma cleanup_step_card: "cleanup_step s t \<Longrightarrow> finite (dom (objs s)) \<Longrightarrow> Suc (card (dom (objs t))) = card (dom (objs s))"
  by (elim cleanup_stepE) (metis card_Suc_Diff1 domI dom_fun_upd ssl_sys.select_convs(1))

interpretation cleanup: terminating_system "cleanup_init W s0" cleanup_step "cleanup_inv W s0"
  "\<lambda>s. card (dom (objs s))" for W s0
proof unfold_locales
  fix s assume "cleanup_init W s0 s"
  then show "cleanup_inv W s0 s"
    using ssl_finite ssl.inv_reachable by (auto simp: cleanup_init_def cleanup_inv_def)
next
  fix s t assume "cleanup_inv W s0 s" "cleanup_step s t"
  then show "card (dom (objs t)) < card (dom (objs s))"
    using cleanup_step_card by (fastforce simp: cleanup_inv_def)
qed (rule cleanup_step_inv)

text \<open>A clean-up run makes no call but to free contexts; in a lawful history none is freed twice.\<close>

lemma cleanup_step_frees: "cleanup_step s t \<Longrightarrow> \<exists>fs. events (wd t) = map Ev_Free fs @ events (wd s)"
proof (elim cleanup_stepE)
  fix i x assume t: "t = \<lparr>objs = (objs s)(i := None), wd = ssl_destroy x (wd s)\<rparr>"
  show "\<exists>fs. events (wd t) = map Ev_Free fs @ events (wd s)"
    by (intro exI [of _ "case sc_ctx x of None \<Rightarrow> [] | Some c \<Rightarrow> [c]"])
      (simp add: t ssl_destroy_def free_if_set_def log_event_def split: option.split)
qed

lemma cleanup_run_frees: "cleanup_step\<^sup>*\<^sup>* s t \<Longrightarrow> \<exists>fs. events (wd t) = map Ev_Free fs @ events (wd s)"
proof (induction rule: rtranclp_induct)
  case base
  show ?case by (intro exI [of _ "[]"]) simp
next
  case (step t u)
  then obtain fs gs where "events (wd t) = map Ev_Free fs @ events (wd s)" "events (wd u) = map Ev_Free gs @ events (wd t)"
    using cleanup_step_frees by blast
  then show ?case by (intro exI [of _ "gs @ fs"]) simp
qed

lemma live_frees: "live (map Ev_Free fs @ h) = live h - set fs"
  by (induction fs) auto

lemma lawful_frees: "lawful (map Ev_Free fs @ h) \<Longrightarrow> distinct fs \<and> set fs \<subseteq> live h"
  by (induction fs) (auto simp: live_frees)

lemma cleanup_completes:
  assumes "reachable ssl_init (ssl_step W) s" and "cleanup_step\<^sup>*\<^sup>* s t"
  shows "\<exists>u. cleanup_step\<^sup>*\<^sup>* t u \<and> objs u = Map.empty"
proof -
  have "cleanup_inv W s s" using assms(1) by (intro cleanup.inv_init) (simp add: cleanup_init_def)
  then have "cleanup_inv W s t" by (rule cleanup.inv_run [OF assms(2)])
  from cleanup.run_completes [OF this] show ?thesis using cleanup_stuck by blast
qed

section \<open>Properties\<close>

text \<open>C16: the end of a program. From every state, after any objects have been destroyed in any order, the rest can
  be destroyed too; and whenever all objects are gone, the calls of wolfSSL since then were
  exactly one \<open>wolfSSL_CTX_free\<close> for each context that was allocated, but for those whose cipher list had been
  refused, which stay allocated.\<close>

theorem cleanup_frees_everything:
  assumes "allocator_fresh W" and "reachable ssl_init (ssl_step W) s" and "cleanup_step\<^sup>*\<^sup>* s t"
  shows "(\<exists>u. cleanup_step\<^sup>*\<^sup>* t u \<and> objs u = Map.empty)
     \<and> (objs t = Map.empty \<longrightarrow> (\<exists>fs. events (wd t) = map Ev_Free fs @ events (wd s) \<and> distinct fs
          \<and> set fs = live (events (wd s)) - rejected (SSL_SUCCESS W) (events (wd s))
          \<and> live (events (wd t)) = rejected (SSL_SUCCESS W) (events (wd s))))"
proof (intro conjI impI)
  show "\<exists>u. cleanup_step\<^sup>*\<^sup>* t u \<and> objs u = Map.empty" by (rule cleanup_completes [OF assms(2,3)])
next
  assume e: "objs t = Map.empty"
  obtain fs where fs: "events (wd t) = map Ev_Free fs @ events (wd s)" using cleanup_run_frees [OF assms(3)] by blast
  have "cleanup_inv W s s" using assms(2) by (intro cleanup.inv_init) (simp add: cleanup_init_def)
  then have "cleanup_inv W s t" by (rule cleanup.inv_run [OF assms(3)])
  then have own: "own_inv (SSL_SUCCESS W) (handles (objs t)) (events (wd t))"
    and r: "rejected (SSL_SUCCESS W) (events (wd t)) = rejected (SSL_SUCCESS W) (events (wd s))"
    using assms(1) by (simp_all add: cleanup_inv_def ssl_inv_def world_ok_def)
  have l: "live (events (wd t)) = rejected (SSL_SUCCESS W) (events (wd s))" using own e r by (simp add: own_inv_def)
  have "lawful (map Ev_Free fs @ events (wd s))" using own by (simp add: own_inv_def fs)
  then have "distinct fs \<and> set fs \<subseteq> live (events (wd s))" by (rule lawful_frees)
  with l fs show "\<exists>fs. events (wd t) = map Ev_Free fs @ events (wd s) \<and> distinct fs
          \<and> set fs = live (events (wd s)) - rejected (SSL_SUCCESS W) (events (wd s))
          \<and> live (events (wd t)) = rejected (SSL_SUCCESS W) (events (wd s))"
    by (intro exI [of _ fs]) (auto simp: live_frees)
qed

theorem cleanup_frees_everything_witness:
  "\<exists>(t :: ssl_sys) fs. objs t = Map.empty \<and> events (wd t) = map Ev_Free fs @ sample_history
     \<and> distinct fs \<and> set fs = live sample_history"
proof -
  let ?s = "\<lparr>objs = [0 \<mapsto> sample_ctx], wd = \<lparr>events = sample_history, sslInitDone = True\<rparr>\<rparr>"
  have r: "rejected (SSL_SUCCESS sample_wolfssl) (events (wd ?s)) = {}"
    by (simp add: sample_history_def sample_wolfssl_def)
  obtain t where t: "cleanup_step\<^sup>*\<^sup>* ?s t" "objs t = Map.empty"
    using cleanup_completes [OF sample_reachable rtranclp.rtrancl_refl] by blast
  from cleanup_frees_everything [OF sample_fresh sample_reachable t(1)] t(2)
  obtain fs where "events (wd t) = map Ev_Free fs @ events (wd ?s)" "distinct fs"
      "set fs = live (events (wd ?s)) - rejected (SSL_SUCCESS sample_wolfssl) (events (wd ?s))" by blast
  then have "events (wd t) = map Ev_Free fs @ sample_history" "distinct fs" "set fs = live sample_history"
    unfolding r by simp_all
  with t(2) show ?thesis by blast
qed

end
