(* ===== verification/Iggy_Threads.thy ===== *)
theory Iggy_Threads
  imports Iggy_SslContext
begin

text \<open>
  The constructor of \<open>SSLContext\<close> (\<^verbatim>\<open>sdk/net/crypto/ssl.cc\<close>) run by several
  threads at once. The library is initialized by \<open>std::call_once\<close>, which is where threads
  wait for each other; between the other wolfSSL calls of a constructor any thread may run. A thread
  is a program counter that goes through the calls of the constructor in the order of the
  code, and then destroys its context; a step of the system is a step of one thread.
\<close>

section \<open>One thread\<close>

text \<open>
  \<open>std::once_flag\<close>: a thread that finds a call in progress waits until it has returned. The
  passive callers see the flag set only after that.
\<close>

datatype once_flag = Not_Called | In_Progress nat | Called

datatype pc =
    At_Once
  | In_Init
  | After_Init
  | At_New
  | At_Set_Min addr version_macro
  | At_Manager addr
  | At_Ciphers addr "addr option"
  | Constructed SSLContext
  | Threw exn
  | Destroyed

text \<open>The arguments of each thread's constructor call.\<close>

record job =
  job_options :: SSLOptions
  job_optionsRef :: addr
  job_pkiEnvRef :: addr

record threads =
  pcs :: "nat \<Rightarrow> pc"
  once :: once_flag
  history :: "api_event list"

definition goto :: "nat \<Rightarrow> pc \<Rightarrow> threads \<Rightarrow> threads" where
  "goto i p s = s\<lparr>pcs := (pcs s)(i := p)\<rparr>"

definition record_event :: "api_event \<Rightarrow> threads \<Rightarrow> threads" where
  "record_event e s = s\<lparr>history := e # history s\<rparr>"

text \<open>
  The next step of a thread, \<open>None\<close> when it waits or has finished. The error text is the one of
  the thread's own failing call: wolfSSL keeps its error queue per thread.
\<close>

definition thread_step :: "wolfssl \<Rightarrow> (nat \<Rightarrow> job) \<Rightarrow> nat \<Rightarrow> threads \<Rightarrow> threads option" where
  "thread_step W jobs i s = (case pcs s i of
     At_Once \<Rightarrow> (case once s of
         Not_Called \<Rightarrow> Some (goto i In_Init (s\<lparr>once := In_Progress i\<rparr>))
       | In_Progress _ \<Rightarrow> None
       | Called \<Rightarrow> Some (goto i At_New s))
   | In_Init \<Rightarrow> Some (goto i After_Init (record_event Ev_Init s))
   | After_Init \<Rightarrow> Some (goto i At_New (s\<lparr>once := Called\<rparr>))
   | At_New \<Rightarrow> (case client_method (minimumSupportedProtocolVersion (job_options (jobs i))) of
         Inl e \<Rightarrow> Some (goto i (Threw e) s)
       | Inr (method, version) \<Rightarrow>
           (let r = ctx_new_result W (history s) method;
                s1 = record_event (Ev_New method r) s
            in case r of
                 None \<Rightarrow> Some (goto i (Threw (Runtime_Error
                   (''Failed to allocate WolfSSL context'' @ '': '' @ error_text W (history s1)))) s1)
               | Some ctx \<Rightarrow> Some (goto i (At_Set_Min ctx version) s1)))
   | At_Set_Min ctx version \<Rightarrow> Some (goto i (At_Manager ctx)
       (record_event (Ev_Set_Min ctx version (set_min_result W (history s) ctx version)) s))
   | At_Manager ctx \<Rightarrow> Some (goto i (At_Ciphers ctx (ctx_cert_manager W (history s) (Some ctx))) s)
   | At_Ciphers ctx cm \<Rightarrow>
       (let joinedCiphers = c_str (join_ciphers (ciphers (job_options (jobs i))));
            ret = set_cipher_result W (history s) ctx joinedCiphers;
            s1 = record_event (Ev_Set_Ciphers ctx joinedCiphers ret) s
        in if ret \<noteq> SSL_SUCCESS W
           then Some (goto i (Threw (Runtime_Error
             (''Failed to set cipher list: '' @ error_text W (history s1)))) s1)
           else Some (goto i (Constructed \<lparr>sc_options = job_optionsRef (jobs i),
             sc_pkiEnv = job_pkiEnvRef (jobs i), sc_ctx = Some ctx, sc_cm = cm\<rparr>) s1))
   | Constructed x \<Rightarrow> Some (goto i Destroyed
       (case sc_ctx x of None \<Rightarrow> s | Some c \<Rightarrow> record_event (Ev_Free c) s))
   | Threw _ \<Rightarrow> None
   | Destroyed \<Rightarrow> None)"

section \<open>All threads\<close>

definition threads_init :: "threads \<Rightarrow> bool" where
  "threads_init s \<longleftrightarrow> s = \<lparr>pcs = \<lambda>_. At_Once, once = Not_Called, history = []\<rparr>"

inductive threads_step :: "wolfssl \<Rightarrow> (nat \<Rightarrow> job) \<Rightarrow> nat \<Rightarrow> threads \<Rightarrow> threads \<Rightarrow> bool"
  for W jobs n where
  "i < n \<Longrightarrow> thread_step W jobs i s = Some t \<Longrightarrow> threads_step W jobs n s t"

inductive_cases threads_stepE: "threads_step W jobs n s t"

text \<open>The program counter falls into the calls left to do.\<close>

primrec pc_weight :: "pc \<Rightarrow> nat" where
  "pc_weight At_Once = 8"
| "pc_weight In_Init = 7"
| "pc_weight After_Init = 6"
| "pc_weight At_New = 5"
| "pc_weight (At_Set_Min c v) = 4"
| "pc_weight (At_Manager c) = 3"
| "pc_weight (At_Ciphers c m) = 2"
| "pc_weight (Constructed x) = 1"
| "pc_weight (Threw e) = 0"
| "pc_weight Destroyed = 0"

definition threads_weight :: "nat \<Rightarrow> threads \<Rightarrow> nat" where
  "threads_weight n s = (\<Sum>i<n. pc_weight (pcs s i))"

definition finished :: "pc \<Rightarrow> bool" where
  "finished p \<longleftrightarrow> pc_weight p = 0"

text \<open>The context that a thread holds.\<close>

primrec held :: "pc \<Rightarrow> addr option" where
  "held At_Once = None"
| "held In_Init = None"
| "held After_Init = None"
| "held At_New = None"
| "held (At_Set_Min c v) = Some c"
| "held (At_Manager c) = Some c"
| "held (At_Ciphers c m) = Some c"
| "held (Constructed x) = sc_ctx x"
| "held (Threw e) = None"
| "held Destroyed = None"

lemma goto_simps [simp]:
  "pcs (goto i p s) = (pcs s)(i := p)" "once (goto i p s) = once s" "history (goto i p s) = history s"
  by (simp_all add: goto_def)

lemma record_event_simps [simp]:
  "pcs (record_event e s) = pcs s" "once (record_event e s) = once s"
  "history (record_event e s) = e # history s"
  by (simp_all add: record_event_def)

lemma finished_simps [simp]:
  "finished (Threw e)" "finished Destroyed" "\<not> finished At_Once" "\<not> finished (Constructed x)"
  by (simp_all add: finished_def)

text \<open>A step of one thread changes its own counter only, and lowers its weight.\<close>

lemma thread_step_weight:
  "thread_step W jobs i s = Some t \<Longrightarrow>
     pc_weight (pcs t i) < pc_weight (pcs s i) \<and> (\<forall>j. j \<noteq> i \<longrightarrow> pcs t j = pcs s j)"
  by (auto simp: thread_step_def Let_def split: pc.splits once_flag.splits sum.splits option.splits if_splits)

lemma threads_step_weight: "threads_step W jobs n s t \<Longrightarrow> threads_weight n t < threads_weight n s"
proof (elim threads_stepE)
  fix i assume "i < n" "thread_step W jobs i s = Some t"
  with thread_step_weight [of W jobs i s t] show ?thesis
    unfolding threads_weight_def by (intro sum_strict_mono_ex1) (auto simp: le_eq_less_or_eq)
qed

text \<open>A thread is stuck only at its end, or while another one initializes the library.\<close>

lemma thread_step_None:
  "thread_step W jobs i s = None \<longleftrightarrow> finished (pcs s i) \<or> pcs s i = At_Once \<and> (\<exists>k. once s = In_Progress k)"
  by (auto simp: thread_step_def finished_def Let_def
      split: pc.splits once_flag.splits sum.splits option.splits if_splits)

section \<open>The invariant\<close>

text \<open>How far the initialization is, and who is inside it.\<close>

definition once_ok :: "nat \<Rightarrow> threads \<Rightarrow> bool" where
  "once_ok n s \<longleftrightarrow> (case once s of
     Not_Called \<Rightarrow> history s = [] \<and> (\<forall>i. pcs s i = At_Once)
   | In_Progress k \<Rightarrow> k < n \<and> (\<forall>i. i \<noteq> k \<longrightarrow> pcs s i = At_Once)
       \<and> (pcs s k = In_Init \<and> history s = [] \<or> pcs s k = After_Init \<and> history s = [Ev_Init])
   | Called \<Rightarrow> history s \<noteq> [] \<and> (\<forall>i. pcs s i \<noteq> In_Init \<and> pcs s i \<noteq> After_Init))"

text \<open>What the history says of the context that a thread holds, by its place in the constructor.\<close>

definition pc_config :: "wolfssl \<Rightarrow> job \<Rightarrow> api_event list \<Rightarrow> pc \<Rightarrow> bool" where
  "pc_config W job h p = (case p of
     At_Set_Min c v \<Rightarrow> \<exists>m. client_method (minimumSupportedProtocolVersion (job_options job)) = Inr (m, v)
       \<and> ctx_config (SSL_SUCCESS W) h c = Some (m, None, None)
   | At_Manager c \<Rightarrow> \<exists>m v. client_method (minimumSupportedProtocolVersion (job_options job)) = Inr (m, v)
       \<and> ctx_config (SSL_SUCCESS W) h c = Some (m, Some v, None)
   | At_Ciphers c cm \<Rightarrow> \<exists>m v. client_method (minimumSupportedProtocolVersion (job_options job)) = Inr (m, v)
       \<and> ctx_config (SSL_SUCCESS W) h c = Some (m, Some v, None)
   | Constructed x \<Rightarrow> \<exists>c m v. client_method (minimumSupportedProtocolVersion (job_options job)) = Inr (m, v)
       \<and> sc_ctx x = Some c \<and> sc_options x = job_optionsRef job \<and> sc_pkiEnv x = job_pkiEnvRef job
       \<and> ctx_config (SSL_SUCCESS W) h c =
           Some (m, Some v, Some (c_str (join_ciphers (ciphers (job_options job)))))
   | _ \<Rightarrow> True)"

definition threads_inv :: "wolfssl \<Rightarrow> (nat \<Rightarrow> job) \<Rightarrow> nat \<Rightarrow> threads \<Rightarrow> bool" where
  "threads_inv W jobs n s \<longleftrightarrow>
     once_ok n s
   \<and> own_inv (SSL_SUCCESS W) (\<lambda>i. held (pcs s i)) (history s)
   \<and> (\<forall>i. pc_config W (jobs i) (history s) (pcs s i))
   \<and> (\<forall>i \<ge> n. pcs s i = At_Once)"

text \<open>A call on another context leaves the configuration of the held one alone.\<close>

fun about :: "api_event \<Rightarrow> addr option" where
  "about Ev_Init = None"
| "about (Ev_New m r) = r"
| "about (Ev_Free c) = Some c"
| "about (Ev_Set_Min c v q) = Some c"
| "about (Ev_Set_Ciphers c s r) = Some c"

lemma ctx_config_other: "about e \<noteq> Some c \<Longrightarrow> ctx_config ok (e # h) c = ctx_config ok h c"
  by (cases e) auto

lemma pc_config_other:
  "pc_config W job h p \<Longrightarrow> (\<And>c. held p = Some c \<Longrightarrow> about e \<noteq> Some c) \<Longrightarrow> pc_config W job (e # h) p"
  by (cases p) (auto simp: pc_config_def ctx_config_other)

text \<open>
  The step that extends the history by one call: it keeps the other threads' configurations when
  the call is about a context that no other thread holds.
\<close>

lemma pc_config_step:
  assumes "\<forall>i. pc_config W (jobs i) h (ps i)"
    and "\<And>j c. j \<noteq> i \<Longrightarrow> held (ps j) = Some c \<Longrightarrow> about e \<noteq> Some c"
    and "pc_config W (jobs i) (e # h) p"
  shows "\<forall>j. pc_config W (jobs j) (e # h) ((ps(i := p)) j)"
  using assms by (auto intro: pc_config_other)

lemma own_exclusive: "own_inv ok own h \<Longrightarrow> own i = Some c \<Longrightarrow> j \<noteq> i \<Longrightarrow> own j \<noteq> Some c"
  unfolding own_inv_def by blast

lemma own_live: "own_inv ok own h \<Longrightarrow> own i = Some c \<Longrightarrow> c \<in> live h"
  unfolding own_inv_def by (auto intro: ranI)

lemma own_upd_same: "own i = r \<Longrightarrow> own(i := r) = own"
  by auto

lemma held_upd: "(\<lambda>j. held ((ps(i := p)) j)) = (\<lambda>j. held (ps j))(i := held p)"
  by auto

text \<open>A refused cipher list: the thread lets go of the context, which stays allocated.\<close>

lemma own_refused:
  assumes "own_inv ok own h" "own i = Some c" "r \<noteq> ok"
  shows "own_inv ok (own(i := None)) (Ev_Set_Ciphers c s r # h)"
  using assms by (auto simp: own_inv_def ran_drop intro: ranI)

lemma thread_step_cases:
  assumes "thread_step W jobs i s = Some t"
  obtains (enter) "pcs s i = At_Once" "once s = Not_Called" "t = goto i In_Init (s\<lparr>once := In_Progress i\<rparr>)"
  | (pass) "pcs s i = At_Once" "once s = Called" "t = goto i At_New s"
  | (initialize) "pcs s i = In_Init" "t = goto i After_Init (record_event Ev_Init s)"
  | (complete) "pcs s i = After_Init" "t = goto i At_New (s\<lparr>once := Called\<rparr>)"
  | (unsupported) e where "pcs s i = At_New" "t = goto i (Threw e) s"
  | (unallocated) m e where "pcs s i = At_New" "t = goto i (Threw e) (record_event (Ev_New m None) s)"
  | (allocated) m v c where "pcs s i = At_New"
      "client_method (minimumSupportedProtocolVersion (job_options (jobs i))) = Inr (m, v)"
      "ctx_new_result W (history s) m = Some c"
      "t = goto i (At_Set_Min c v) (record_event (Ev_New m (Some c)) s)"
  | (set_min) c v where "pcs s i = At_Set_Min c v" "t = goto i (At_Manager c) (record_event (Ev_Set_Min c v (set_min_result W (history s) c v)) s)"
  | (manager) c cm where "pcs s i = At_Manager c" "t = goto i (At_Ciphers c cm) s"
  | (refused) c cm str r e where "pcs s i = At_Ciphers c cm" "r \<noteq> SSL_SUCCESS W"
      "t = goto i (Threw e) (record_event (Ev_Set_Ciphers c str r) s)"
  | (accepted) c cm where "pcs s i = At_Ciphers c cm"
      "t = goto i (Constructed \<lparr>sc_options = job_optionsRef (jobs i), sc_pkiEnv = job_pkiEnvRef (jobs i),
           sc_ctx = Some c, sc_cm = cm\<rparr>)
         (record_event (Ev_Set_Ciphers c (c_str (join_ciphers (ciphers (job_options (jobs i))))) (SSL_SUCCESS W)) s)"
  | (destroy) x where "pcs s i = Constructed x"
      "t = goto i Destroyed (case sc_ctx x of None \<Rightarrow> s | Some c \<Rightarrow> record_event (Ev_Free c) s)"
  using assms
  by (auto simp: thread_step_def Let_def split: pc.splits once_flag.splits sum.splits option.splits if_splits)

text \<open>While the initialization runs, every other thread is still before it.\<close>

lemma once_progress: "once_ok n s \<Longrightarrow> once s = In_Progress k \<Longrightarrow> pcs s i \<noteq> At_Once \<Longrightarrow> i = k"
  by (cases "i = k") (simp_all add: once_ok_def)

lemma once_inside:
  assumes "once_ok n s" and "pcs s i = In_Init \<or> pcs s i = After_Init"
  shows "once s = In_Progress i \<and> (\<forall>j. j \<noteq> i \<longrightarrow> pcs s j = At_Once)
     \<and> history s = (if pcs s i = In_Init then [] else [Ev_Init])"
proof (cases "once s")
  case (In_Progress k)
  with assms once_progress [OF assms(1) In_Progress, of i] have "i = k" by auto
  with assms In_Progress show ?thesis by (auto simp: once_ok_def)
qed (use assms in \<open>auto simp: once_ok_def\<close>)

lemma once_called:
  assumes "once_ok n s" and "pcs s i \<noteq> At_Once" "pcs s i \<noteq> In_Init" "pcs s i \<noteq> After_Init"
  shows "once s = Called"
proof (cases "once s")
  case (In_Progress k)
  with assms once_progress [OF assms(1) In_Progress, of i] have "i = k" by auto
  with assms In_Progress show ?thesis by (auto simp: once_ok_def)
qed (use assms in \<open>auto simp: once_ok_def\<close>)

text \<open>After the initialization every step has the same shape: one thread moves, at most one call is made.\<close>

lemma once_ok_called:
  assumes "once s = Called" "once t = Called" "history t \<noteq> []" "once_ok n s"
    and "pcs t = (pcs s)(i := p)" "p \<noteq> In_Init" "p \<noteq> After_Init"
  shows "once_ok n t"
  using assms by (auto simp: once_ok_def)

lemma threads_inv_silent:
  assumes inv: "threads_inv W jobs n s" and "once s = Called" "i < n" "t = goto i p s"
    and "held p = held (pcs s i)" "pc_config W (jobs i) (history s) p" "p \<noteq> In_Init" "p \<noteq> After_Init"
  shows "threads_inv W jobs n t"
proof -
  from inv assms(2) have "history s \<noteq> []" by (auto simp: threads_inv_def once_ok_def)
  with assms have "once_ok n t"
    by (intro once_ok_called [of s t n i p]) (auto simp: threads_inv_def)
  moreover have "(\<lambda>j. held (pcs t j)) = (\<lambda>j. held (pcs s j))"
    using assms(4,5) by auto
  ultimately show ?thesis
    using assms by (auto simp: threads_inv_def)
qed

lemma threads_inv_call:
  assumes inv: "threads_inv W jobs n s" and "once s = Called" "i < n" "t = goto i p (record_event e s)"
    and own: "own_inv (SSL_SUCCESS W) ((\<lambda>j. held (pcs s j))(i := held p)) (e # history s)"
    and excl: "\<And>c j. about e = Some c \<Longrightarrow> j \<noteq> i \<Longrightarrow> held (pcs s j) \<noteq> Some c"
    and "pc_config W (jobs i) (e # history s) p" "p \<noteq> In_Init" "p \<noteq> After_Init"
  shows "threads_inv W jobs n t"
proof -
  have "once_ok n t"
    using assms by (intro once_ok_called [of s t n i p]) (auto simp: threads_inv_def)
  moreover have "\<forall>j. pc_config W (jobs j) (history t) (pcs t j)"
    unfolding assms(4) goto_simps record_event_simps
    using inv assms(7) excl by (intro pc_config_step) (auto simp: threads_inv_def)
  moreover have "own_inv (SSL_SUCCESS W) (\<lambda>j. held (pcs t j)) (history t)"
    using own unfolding assms(4) goto_simps record_event_simps held_upd .
  ultimately show ?thesis
    using inv assms(3,4) by (auto simp: threads_inv_def)
qed

text \<open>The initialization: entering it, waiting for it, running it, leaving it.\<close>

lemma thread_step_inv_once:
  assumes st: "thread_step W jobs i s = Some t" and i: "i < n" and inv: "threads_inv W jobs n s"
    and at: "pcs s i = At_Once \<or> pcs s i = In_Init \<or> pcs s i = After_Init"
  shows "threads_inv W jobs n t"
proof -
  from inv have once: "once_ok n s" by (simp add: threads_inv_def)
  from st show ?thesis
  proof (cases rule: thread_step_cases)
    case enter
    with once i inv show ?thesis
      by (auto simp: threads_inv_def once_ok_def pc_config_def own_inv_def ran_def)
  next
    case pass
    with inv i show ?thesis by (auto intro!: threads_inv_silent [of W jobs n s i] simp: pc_config_def)
  next
    case initialize
    with once_inside [OF once, of i]
    have o: "once s = In_Progress i" "history s = []" "\<forall>j. j \<noteq> i \<longrightarrow> pcs s j = At_Once" by auto
    have "(\<lambda>j. held (pcs t j)) = Map.empty" using o initialize by auto
    with o initialize i inv own_init show ?thesis
      by (auto simp: threads_inv_def once_ok_def pc_config_def)
  next
    case complete
    with once_inside [OF once, of i]
    have o: "history s = [Ev_Init]" "\<forall>j. j \<noteq> i \<longrightarrow> pcs s j = At_Once" by auto
    have "(\<lambda>j. held (pcs t j)) = Map.empty" using o complete by auto
    with o complete i inv own_init show ?thesis
      by (auto simp: threads_inv_def once_ok_def pc_config_def)
  qed (use at in simp_all)
qed

text \<open>The allocation.\<close>

lemma thread_step_inv_new:
  assumes fr: "allocator_fresh W" and st: "thread_step W jobs i s = Some t" and i: "i < n"
    and inv: "threads_inv W jobs n s" and at: "pcs s i = At_New"
  shows "threads_inv W jobs n t"
proof -
  from inv have once: "once_ok n s" and own: "own_inv (SSL_SUCCESS W) (\<lambda>j. held (pcs s j)) (history s)"
    by (auto simp: threads_inv_def)
  have cl: "once s = Called" using once_called [OF once, of i] at by simp
  with once have h: "history s \<noteq> []" by (auto simp: once_ok_def)
  from st show ?thesis
  proof (cases rule: thread_step_cases)
    case (unsupported e)
    with inv i cl show ?thesis
      by (intro threads_inv_silent [of W jobs n s i t]) (auto simp: pc_config_def)
  next
    case (unallocated m e)
    have "(\<lambda>j. held (pcs s j))(i := None) = (\<lambda>j. held (pcs s j))" using at by auto
    with own_new_failed [OF own h, of m]
    have "own_inv (SSL_SUCCESS W) ((\<lambda>j. held (pcs s j))(i := None)) (Ev_New m None # history s)" by simp
    with cl unallocated inv i show ?thesis
      by (intro threads_inv_call [of W jobs n s i t]) (auto simp: pc_config_def)
  next
    case (allocated m v c)
    from fr allocated(3) have new: "c \<notin> live (history s)" by (auto simp: allocator_fresh_def)
    with own own_live [OF own] have "held (pcs s j) \<noteq> Some c" for j by blast
    moreover have "own_inv (SSL_SUCCESS W) ((\<lambda>j. held (pcs s j))(i := Some c)) (Ev_New m (Some c) # history s)"
      using own_new [OF own h, of i "Some c" m] new allocated(1) by simp
    ultimately show ?thesis
      using allocated cl inv i by (intro threads_inv_call [of W jobs n s i t]) (auto simp: pc_config_def)
  qed (use at in simp_all)
qed

text \<open>The calls on the thread's own context.\<close>

lemma thread_step_inv_held:
  assumes st: "thread_step W jobs i s = Some t" and i: "i < n" and inv: "threads_inv W jobs n s"
    and hi: "held (pcs s i) = Some c"
  shows "threads_inv W jobs n t"
proof -
  from inv have once: "once_ok n s" and own: "own_inv (SSL_SUCCESS W) (\<lambda>j. held (pcs s j)) (history s)"
    and cfg: "pc_config W (jobs i) (history s) (pcs s i)"
    by (auto simp: threads_inv_def)
  have cl: "once s = Called" using hi by (intro once_called [OF once, of i]) auto
  have excl: "held (pcs s j) \<noteq> Some c" if "j \<noteq> i" for j
    using own_exclusive [OF own, of i c j] hi that by simp
  have same: "(\<lambda>j. held (pcs s j))(i \<mapsto> c) = (\<lambda>j. held (pcs s j))" using hi by auto
  from st show ?thesis
  proof (cases rule: thread_step_cases)
    case (set_min d v)
    from own_set_min [OF own hi, of v] hi same cfg excl cl set_min inv i show ?thesis
      by (intro threads_inv_call [of W jobs n s i t]) (auto simp: pc_config_def)
  next
    case (manager d cm)
    from cfg manager cl inv i show ?thesis
      by (intro threads_inv_silent [of W jobs n s i t]) (auto simp: pc_config_def)
  next
    case (refused d cm str r e)
    from own_refused [OF own hi refused(2), of str] hi excl cl refused inv i show ?thesis
      by (intro threads_inv_call [of W jobs n s i t]) (auto simp: pc_config_def)
  next
    case (accepted d cm)
    from own_ciphers_accepted [OF own hi] hi same cfg excl cl accepted inv i show ?thesis
      by (intro threads_inv_call [of W jobs n s i t]) (auto simp: pc_config_def)
  next
    case (destroy x)
    from own_free [OF own hi] hi excl cl destroy inv i show ?thesis
      by (intro threads_inv_call [of W jobs n s i t]) (auto simp: pc_config_def)
  qed (use hi in simp_all)
qed

lemma thread_step_inv:
  assumes fr: "allocator_fresh W" and st: "thread_step W jobs i s = Some t" and i: "i < n"
    and inv: "threads_inv W jobs n s"
  shows "threads_inv W jobs n t"
proof (cases "pcs s i")
  case (Constructed x)
  with inv have "pc_config W (jobs i) (history s) (Constructed x)" by (metis threads_inv_def)
  then obtain c where "sc_ctx x = Some c" by (auto simp: pc_config_def)
  with Constructed show ?thesis by (intro thread_step_inv_held [OF st i inv, of c]) simp
qed (use thread_step_inv_once [OF st i inv] thread_step_inv_new [OF fr st i inv]
    thread_step_inv_held [OF st i inv] st in \<open>auto simp: thread_step_def\<close>)

lemma threads_step_inv:
  "allocator_fresh W \<Longrightarrow> threads_step W jobs n s t \<Longrightarrow> threads_inv W jobs n s \<Longrightarrow> threads_inv W jobs n t"
  by (elim threads_stepE) (rule thread_step_inv)

lemma threads_inv_init: "threads_init s \<Longrightarrow> threads_inv W jobs n s"
  by (auto simp: threads_init_def threads_inv_def once_ok_def pc_config_def own_inv_def ran_def)

interpretation threads: terminating_system threads_init "threads_step W jobs n"
  "\<lambda>s. allocator_fresh W \<longrightarrow> threads_inv W jobs n s" "threads_weight n" for W jobs n
  by unfold_locales (auto intro: threads_inv_init threads_step_weight threads_step_inv)

section \<open>Progress\<close>

text \<open>Some thread can always move until all have finished: the one that others wait for is never stuck.\<close>

lemma threads_progress:
  assumes inv: "threads_inv W jobs n s" and "i < n" "\<not> finished (pcs s i)"
  shows "\<exists>t. threads_step W jobs n s t"
proof (cases "thread_step W jobs i s")
  case (Some t)
  with assms(2) show ?thesis by (auto intro: threads_step.intros)
next
  case None
  with assms(3) obtain k where "once s = In_Progress k" by (auto simp: thread_step_None)
  with inv have "k < n" "pcs s k = In_Init \<or> pcs s k = After_Init"
    by (auto simp: threads_inv_def once_ok_def)
  moreover from this(2) obtain t where "thread_step W jobs k s = Some t"
    by (auto simp: thread_step_def)
  ultimately show ?thesis by (auto intro: threads_step.intros)
qed

lemma finished_held: "finished p \<Longrightarrow> held p = None"
  by (cases p) (simp_all add: finished_def)

lemma threads_nothing_held:
  assumes inv: "threads_inv W jobs n s" and none: "\<And>i. i < n \<Longrightarrow> held (pcs s i) = None"
  shows "live (history s) = rejected (SSL_SUCCESS W) (history s)"
proof -
  have "held (pcs s i) = None" for i
    using none [of i] inv by (cases "i < n") (auto simp: threads_inv_def)
  with inv show ?thesis by (auto simp: threads_inv_def own_inv_def ran_def)
qed

lemma threads_final:
  assumes inv: "threads_inv W jobs n s" and stuck: "\<And>t. \<not> threads_step W jobs n s t"
  shows "(\<forall>i < n. finished (pcs s i)) \<and> live (history s) = rejected (SSL_SUCCESS W) (history s)"
proof -
  have f: "finished (pcs s i)" if "i < n" for i
    using threads_progress [OF inv that] stuck by blast
  with threads_nothing_held [OF inv] finished_held show ?thesis by blast
qed

text \<open>In a lawful history the first call, and only the first, initializes the library.\<close>

lemma lawful_init_first: "lawful h \<Longrightarrow> h \<noteq> [] \<Longrightarrow> last h = Ev_Init \<and> Ev_Init \<notin> set (butlast h)"
proof (induction h)
  case (Cons e h)
  show ?case
  proof (cases "h = []")
    case True
    with Cons.prems show ?thesis by (cases e) auto
  next
    case False
    with Cons show ?thesis by (cases e) auto
  qed
qed simp

section \<open>A thread on its own\<close>

text \<open>Runs one thread until its constructor has returned or thrown.\<close>

primrec solo :: "nat \<Rightarrow> wolfssl \<Rightarrow> (nat \<Rightarrow> job) \<Rightarrow> nat \<Rightarrow> threads \<Rightarrow> threads" where
  "solo 0 W jobs i s = s"
| "solo (Suc k) W jobs i s =
     (if pc_weight (pcs s i) \<le> 1 then s
      else case thread_step W jobs i s of None \<Rightarrow> s | Some t \<Rightarrow> solo k W jobs i t)"

text \<open>The threads' state as the world of the sequential constructor.\<close>

definition world_of :: "threads \<Rightarrow> world" where
  "world_of s = \<lparr>events = history s, sslInitDone = (once s = Called)\<rparr>"

lemma world_of_simps [simp]: "events (world_of s) = history s" "sslInitDone (world_of s) \<longleftrightarrow> once s = Called"
  by (simp_all add: world_of_def)

lemma solo_done [simp]: "pc_weight (pcs s i) \<le> 1 \<Longrightarrow> solo k W jobs i s = s"
  by (cases k) simp_all

lemma solo_call_once:
  assumes "pcs s i = At_Once" "\<forall>k. once s \<noteq> In_Progress k"
  shows "\<exists>k \<ge> 5. \<exists>t. solo 8 W jobs i s = solo k W jobs i t \<and> pcs t i = At_New \<and> once t = Called
     \<and> history t = events (call_once_init (world_of s))"
proof (cases "once s")
  case Called
  with assms(1) have "solo 8 W jobs i s = solo 7 W jobs i (goto i At_New s)"
    by (simp add: eval_nat_numeral thread_step_def)
  with Called show ?thesis
    by (intro exI [of _ 7] conjI exI [of _ "goto i At_New s"]) (simp_all add: call_once_init_def)
next
  case Not_Called
  let ?t = "goto i At_New ((goto i After_Init (record_event Ev_Init (goto i In_Init (s\<lparr>once := In_Progress i\<rparr>))))\<lparr>once := Called\<rparr>)"
  from Not_Called assms(1) have "solo 8 W jobs i s = solo 5 W jobs i ?t"
    by (simp add: eval_nat_numeral thread_step_def)
  with Not_Called show ?thesis
    by (intro exI [of _ 5] conjI exI [of _ ?t]) (simp_all add: call_once_init_def)
qed (use assms in simp)

lemma solo_rest:
  assumes at: "pcs t i = At_New" and k: "5 \<le> k" and h: "history t = events (call_once_init w)"
    and r: "ssl_construct W (job_optionsRef (jobs i)) (job_options (jobs i)) (job_pkiEnvRef (jobs i)) w = (r, w')"
  shows "once (solo k W jobs i t) = once t \<and> history (solo k W jobs i t) = events w'
     \<and> pcs (solo k W jobs i t) i = (case r of Inl e \<Rightarrow> Threw e | Inr x \<Rightarrow> Constructed x)"
proof -
  from k obtain l where k: "k = Suc (Suc (Suc (Suc (Suc l))))"
    by (auto simp: le_iff_add eval_nat_numeral)
  note defs = thread_step_def ssl_construct_def raiseSSLError_def wolfSSL_CTX_new_eq Let_def
  show ?thesis
  proof (cases "client_method (minimumSupportedProtocolVersion (job_options (jobs i)))")
    case (Inl e)
    with at h r show ?thesis unfolding k by (auto simp: defs)
  next
    case (Inr mv)
    obtain m v where mv: "mv = (m, v)" by fastforce
    show ?thesis
    proof (cases "ctx_new_result W (history t) m")
      case None
      with Inr mv at h r show ?thesis unfolding k by (auto simp: defs)
    next
      case (Some c)
      with Inr mv at h r show ?thesis unfolding k by (auto simp: defs split: if_splits)
    qed
  qed
qed

lemma solo_sequential:
  assumes "pcs s i = At_Once" and "\<forall>k. once s \<noteq> In_Progress k"
    and "ssl_construct W (job_optionsRef (jobs i)) (job_options (jobs i)) (job_pkiEnvRef (jobs i)) (world_of s) = (r, w')"
  shows "history (solo 8 W jobs i s) = events w' \<and> once (solo 8 W jobs i s) = Called
     \<and> pcs (solo 8 W jobs i s) i = (case r of Inl e \<Rightarrow> Threw e | Inr x \<Rightarrow> Constructed x)"
proof -
  obtain k t where "5 \<le> k" "solo 8 W jobs i s = solo k W jobs i t" "pcs t i = At_New" "once t = Called"
    "history t = events (call_once_init (world_of s))"
    using solo_call_once [OF assms(1,2)] by blast
  with solo_rest [of t i k "world_of s" W jobs r w'] assms(3) show ?thesis by simp
qed

lemma solo_others: "j \<noteq> i \<Longrightarrow> pcs (solo k W jobs i s) j = pcs s j"
proof (induction k arbitrary: s)
  case (Suc k)
  then show ?case using thread_step_weight [of W jobs i s] by (auto split: option.split)
qed simp

section \<open>A sample of two threads\<close>

text \<open>Runs the threads of a schedule, one step for each entry; a thread that waits is passed over.\<close>

fun schedule :: "wolfssl \<Rightarrow> (nat \<Rightarrow> job) \<Rightarrow> nat list \<Rightarrow> threads \<Rightarrow> threads" where
  "schedule W jobs [] s = s"
| "schedule W jobs (i # is) s =
     schedule W jobs is (case thread_step W jobs i s of None \<Rightarrow> s | Some t \<Rightarrow> t)"

lemma schedule_run: "\<forall>i \<in> set is. i < n \<Longrightarrow> (threads_step W jobs n)\<^sup>*\<^sup>* s (schedule W jobs is s)"
proof (induction "is" arbitrary: s)
  case (Cons i "is")
  show ?case
  proof (cases "thread_step W jobs i s")
    case (Some t)
    with Cons.prems have "threads_step W jobs n s t" by (auto intro: threads_step.intros)
    with Cons Some show ?thesis by (auto intro: converse_rtranclp_into_rtranclp)
  qed (use Cons in simp)
qed simp

definition sample_jobs :: "nat \<Rightarrow> job" where
  "sample_jobs i = \<lparr>job_options = sample_options\<lparr>ciphers := (if i = 0 then [''A'', ''B''] else [''C''])\<rparr>,
     job_optionsRef = 7, job_pkiEnvRef = 8\<rparr>"

definition sample_start :: threads where
  "sample_start = \<lparr>pcs = \<lambda>_. At_Once, once = Not_Called, history = []\<rparr>"

text \<open>The second thread tries to initialize the library too, waits, and overtakes the first one.\<close>

definition sample_schedule :: "nat list" where
  "sample_schedule = [0, 1, 0, 1, 0, 1, 1, 0, 1, 0, 1, 0, 1, 0]"

lemma sample_reach:
  "reachable threads_init (threads_step sample_wolfssl sample_jobs 2)
     (schedule sample_wolfssl sample_jobs sample_schedule sample_start)"
  by (rule reachable_run [OF schedule_run reachable_init])
    (auto simp: sample_schedule_def threads_init_def sample_start_def)

lemmas sample_defs = sample_schedule_def sample_start_def sample_jobs_def sample_options_def
  sample_wolfssl_def thread_step_def client_method_def join_ciphers_def c_str_def NUL_def goto_def
  record_event_def Let_def

lemma sample_final:
  "history (schedule sample_wolfssl sample_jobs sample_schedule sample_start) =
     [Ev_Set_Ciphers 2 ''A:B'' 1, Ev_Set_Ciphers 1 ''C'' 1, Ev_Set_Min 2 TLS1_2_VERSION 1, Ev_Set_Min 1 TLS1_2_VERSION 1,
      Ev_New wolfTLSv1_2_client_method (Some 2), Ev_New wolfTLSv1_2_client_method (Some 1), Ev_Init]
   \<and> pcs (schedule sample_wolfssl sample_jobs sample_schedule sample_start) 0 =
       Constructed \<lparr>sc_options = 7, sc_pkiEnv = 8, sc_ctx = Some 2, sc_cm = Some 1002\<rparr>
   \<and> pcs (schedule sample_wolfssl sample_jobs sample_schedule sample_start) 1 =
       Constructed \<lparr>sc_options = 7, sc_pkiEnv = 8, sc_ctx = Some 1, sc_cm = Some 1001\<rparr>"
  by (simp add: sample_defs)

section \<open>Properties\<close>

text \<open>C3: however the threads are interleaved, the library is initialized once and before any other
  call, no thread gets past \<open>call_once\<close> before that, every call is on an allocated context, and
  no two threads ever work on the same context.\<close>

theorem threads_initialize_once:
  assumes "allocator_fresh W" and "reachable threads_init (threads_step W jobs n) s"
  shows "lawful (history s) \<and> Ev_Init \<notin> set (butlast (history s))
     \<and> (\<forall>i. pcs s i \<noteq> At_Once \<and> pcs s i \<noteq> In_Init \<longrightarrow> history s \<noteq> [] \<and> last (history s) = Ev_Init)
     \<and> (\<forall>i j c. held (pcs s i) = Some c \<and> held (pcs s j) = Some c \<longrightarrow> i = j)"
proof -
  have inv: "threads_inv W jobs n s" using threads.inv_reachable [OF assms(2)] assms(1) by blast
  then have once: "once_ok n s" and own: "own_inv (SSL_SUCCESS W) (\<lambda>i. held (pcs s i)) (history s)"
    by (auto simp: threads_inv_def)
  have "history s \<noteq> []" if "pcs s i \<noteq> At_Once" "pcs s i \<noteq> In_Init" for i
    using once_inside [OF once, of i] once_called [OF once, of i] once that
    by (cases "pcs s i = After_Init") (auto simp: once_ok_def)
  with own lawful_init_first [of "history s"] show ?thesis
    unfolding own_inv_def by (cases "history s = []") auto
qed

theorem threads_initialize_once_witness:
  "lawful (history (schedule sample_wolfssl sample_jobs sample_schedule sample_start))
   \<and> length (history (schedule sample_wolfssl sample_jobs sample_schedule sample_start)) = 7"
  using threads_initialize_once [OF sample_fresh sample_reach] by (simp add: sample_final)

text \<open>C14: a context that a thread's constructor has returned is configured as this thread's own options
  say, whatever the other threads did between its calls: the method and the minimum version are
  those of its options, and the cipher list is its own.\<close>

theorem threads_configure_their_own:
  assumes "allocator_fresh W" and "reachable threads_init (threads_step W jobs n) s"
    and "pcs s i = Constructed x"
  shows "\<exists>c m v. getNativeHandle x = Some c
     \<and> client_method (minimumSupportedProtocolVersion (job_options (jobs i))) = Inr (m, v)
     \<and> ctx_config (SSL_SUCCESS W) (history s) c =
         Some (m, Some v, Some (c_str (join_ciphers (ciphers (job_options (jobs i))))))
     \<and> sc_options x = job_optionsRef (jobs i) \<and> sc_pkiEnv x = job_pkiEnvRef (jobs i)"
proof -
  have "pc_config W (jobs i) (history s) (pcs s i)"
    using threads.inv_reachable [OF assms(2)] assms(1) by (simp add: threads_inv_def)
  with assms(3) show ?thesis by (auto simp: pc_config_def getNativeHandle_def)
qed

theorem threads_configure_their_own_witness:
  "ctx_config 1 (history (schedule sample_wolfssl sample_jobs sample_schedule sample_start)) 2 =
     Some (wolfTLSv1_2_client_method, Some TLS1_2_VERSION, Some ''A:B'')"
  using threads_configure_their_own [OF sample_fresh sample_reach conjunct1 [OF conjunct2 [OF sample_final]]]
  by (auto simp: getNativeHandle_def sample_jobs_def sample_options_def client_method_def
      join_ciphers_def c_str_def NUL_def sample_wolfssl_def)



text \<open>C17: no deadlock. From every state that the threads can reach they can go on until all have
  finished, and they stop nowhere else; every context is then freed but those whose cipher
  list was refused.\<close>

theorem threads_finish:
  assumes "allocator_fresh W" and "reachable threads_init (threads_step W jobs n) s"
  shows "(\<exists>t. (threads_step W jobs n)\<^sup>*\<^sup>* s t \<and> (\<forall>i < n. finished (pcs t i)))
     \<and> ((\<forall>t. \<not> threads_step W jobs n s t) \<longrightarrow>
          (\<forall>i < n. finished (pcs s i)) \<and> live (history s) = rejected (SSL_SUCCESS W) (history s))"
proof -
  have inv: "allocator_fresh W \<longrightarrow> threads_inv W jobs n s"
    by (rule threads.inv_reachable [OF assms(2)])
  obtain t where t: "(threads_step W jobs n)\<^sup>*\<^sup>* s t" "\<forall>u. \<not> threads_step W jobs n t u"
    using threads.run_completes [OF inv] by blast
  then have "threads_inv W jobs n t" using threads.inv_run [OF t(1) inv] assms(1) by blast
  with t threads_final [of W jobs n t] threads_final [of W jobs n s] inv assms(1) show ?thesis by blast
qed

theorem threads_finish_witness:
  "\<exists>t. (threads_step sample_wolfssl sample_jobs 2)\<^sup>*\<^sup>* (schedule sample_wolfssl sample_jobs sample_schedule sample_start) t
     \<and> finished (pcs t 0) \<and> finished (pcs t 1)"
  using conjunct1 [OF threads_finish [OF sample_fresh sample_reach]] by force

end
