(* ===== verification/Iggy_Lifetime.thy ===== *)
theory Iggy_Lifetime
  imports Iggy_Pki Iggy_SslContext
begin

text \<open>
  The life of the objects that an \<open>SSLContext\<close> refers to. The class keeps references to its two
  constructor arguments (\<^verbatim>\<open>sdk/net/crypto/ssl.h\<close>), and both have default arguments: temporaries,
  which are destroyed when the call returns. The programs here create, change and delete options,
  environments and PKI objects beside the contexts, in any order; addresses identify objects, so none is given out
  twice.
\<close>

section \<open>The state of a program\<close>

text \<open>
  The options and the environments that are alive, the next address, the PKI objects and the contexts; and, for the
  statements only, the addresses of the options and environments that the program deleted, those of the temporaries
  that were destroyed at the end of a call, and those of the PKI objects that the program deleted.
\<close>

record 'u life =
  lt_options :: "addr \<rightharpoonup> SSLOptions"
  lt_envs :: "addr \<rightharpoonup> PKIEnvironment"
  lt_next :: addr
  lt_heap :: "'u heap"
  lt_sys :: ssl_sys
  lt_deleted :: "addr set"
  lt_temporaries :: "addr set"
  lt_pki_deleted :: "addr set"

definition life_init :: "'u life \<Rightarrow> bool" where
  "life_init s \<longleftrightarrow> lt_options s = Map.empty \<and> lt_envs s = Map.empty \<and> lt_next s = 0
     \<and> lt_heap s = empty_heap \<and> ssl_init (lt_sys s)
     \<and> lt_deleted s = {} \<and> lt_temporaries s = {} \<and> lt_pki_deleted s = {}"

definition new_options :: "SSLOptions \<Rightarrow> 'u life \<Rightarrow> 'u life" where
  "new_options opts s = s\<lparr>lt_options := (lt_options s)(lt_next s \<mapsto> opts), lt_next := Suc (lt_next s)\<rparr>"

definition new_env :: "PKIEnvironment \<Rightarrow> 'u life \<Rightarrow> 'u life" where
  "new_env env s = s\<lparr>lt_envs := (lt_envs s)(lt_next s \<mapsto> env), lt_next := Suc (lt_next s)\<rparr>"

section \<open>Default arguments\<close>

text \<open>
  \<open>SSLOptions<HandleType>()\<close> and \<open>PKIEnvironment<HandleType>()\<close>. The language leaves it
  open which of the two is evaluated first: the flag says which; \<open>ord\<close> is the order of the arguments of
  the environment. The second is not evaluated when the first one throws.
\<close>

definition default_arguments ::
  "argument_order \<Rightarrow> bool \<Rightarrow> wolfssl_build \<Rightarrow> filesystem \<Rightarrow> 'u heap \<Rightarrow> (SSLOptions \<times> PKIEnvironment) result \<times> 'u heap" where
  "default_arguments ord env_first B F h =
     (if env_first then
        (case mk_PKIEnvironment F ord None None None h of
           (Inl e, h1) \<Rightarrow> (Inl e, h1)
         | (Inr env, h1) \<Rightarrow> (rbind (mk_SSLOptions B CLIENT) (\<lambda>opts. Inr (opts, env)), h1))
      else
        (case mk_SSLOptions B CLIENT of
           Inl e \<Rightarrow> (Inl e, h)
         | Inr opts \<Rightarrow> (case mk_PKIEnvironment F ord None None None h of
             (r, h1) \<Rightarrow> (rbind r (\<lambda>env. Inr (opts, env)), h1))))"

text \<open>
  \<open>SSLContext()\<close>: the temporaries are objects like the others while the constructor runs, and are
  destroyed when the call is over, also when it throws.
\<close>

definition destroy_temporaries :: "addr \<Rightarrow> addr \<Rightarrow> 'u life \<Rightarrow> 'u life" where
  "destroy_temporaries a b s = s\<lparr>lt_options := (lt_options s)(a := None), lt_envs := (lt_envs s)(b := None),
     lt_temporaries := {a, b} \<union> lt_temporaries s\<rparr>"

definition default_construct ::
  "argument_order \<Rightarrow> bool \<Rightarrow> wolfssl \<Rightarrow> wolfssl_build \<Rightarrow> filesystem \<Rightarrow> 'u life \<Rightarrow> SSLContext result \<times> 'u life" where
  "default_construct ord env_first W B F s =
     (let a = lt_next s; b = lt_next s + 1 in
      case default_arguments ord env_first B F (lt_heap s) of
        (Inl e, h) \<Rightarrow> (Inl e, s\<lparr>lt_next := lt_next s + 2, lt_heap := h\<rparr>)
      | (Inr (opts, env), h) \<Rightarrow>
          (let s1 = s\<lparr>lt_options := (lt_options s)(a \<mapsto> opts), lt_envs := (lt_envs s)(b \<mapsto> env),
             lt_next := lt_next s + 2, lt_heap := h\<rparr>
           in case ssl_construct W a opts b (wd (lt_sys s1)) of
             (r, w) \<Rightarrow> (r, destroy_temporaries a b (s1\<lparr>lt_sys := (lt_sys s1)\<lparr>wd := w\<rparr>\<rparr>))))"

definition bind_object :: "nat \<Rightarrow> SSLContext \<Rightarrow> 'u life \<Rightarrow> 'u life" where
  "bind_object i x s = s\<lparr>lt_sys := \<lparr>objs = (objs (lt_sys s))(i \<mapsto> x), wd = wd (lt_sys s)\<rparr>\<rparr>"

section \<open>Steps\<close>

text \<open>The operations on contexts that take no new references.\<close>

inductive object_step :: "wolfssl \<Rightarrow> ssl_sys \<Rightarrow> ssl_sys \<Rightarrow> bool" for W where
  object_copy: "objs s i = None \<Longrightarrow> objs s j = Some y \<Longrightarrow> ssl_copy_construct W y (wd s) = (x, w') \<Longrightarrow>
    object_step W s \<lparr>objs = (objs s)(i \<mapsto> x), wd = w'\<rparr>"
| object_move: "objs s i = None \<Longrightarrow> objs s j = Some y \<Longrightarrow> ssl_move_construct y = (x, y') \<Longrightarrow>
    object_step W s \<lparr>objs = (objs s)(i \<mapsto> x, j \<mapsto> y'), wd = wd s\<rparr>"
| object_copy_assign: "objs s i = Some x \<Longrightarrow> objs s j = Some y \<Longrightarrow>
    ssl_copy_assign W (i = j) x y (wd s) = (x', w') \<Longrightarrow>
    object_step W s \<lparr>objs = (objs s)(i \<mapsto> x'), wd = w'\<rparr>"
| object_move_assign: "objs s i = Some x \<Longrightarrow> objs s j = Some y \<Longrightarrow>
    ssl_move_assign (i = j) x y (wd s) = (x', y', w') \<Longrightarrow>
    object_step W s \<lparr>objs = (objs s)(i \<mapsto> x', j \<mapsto> y'), wd = w'\<rparr>"
| object_destroy: "objs s i = Some x \<Longrightarrow>
    object_step W s \<lparr>objs = (objs s)(i := None), wd = ssl_destroy x (wd s)\<rparr>"

inductive option_setter :: "SSLOptions \<Rightarrow> SSLOptions \<Rightarrow> bool" where
  "option_setter opts (setPeerType p opts)"
| "option_setter opts (setPeerCertificatePath q opts)"
| "option_setter opts (setMinimumSupportedProtocolVersion v opts)"
| "option_setter opts (setCiphers cs opts)"

text \<open>
  A program makes, copies, changes and deletes options, environments, PKI objects and contexts in any order; nothing keeps
  it from deleting what a context refers to.
\<close>

inductive life_step :: "wolfssl \<Rightarrow> wolfssl_build \<Rightarrow> 'u life \<Rightarrow> 'u life \<Rightarrow> bool" for W B where
  life_options: "mk_SSLOptions B p = Inr opts \<Longrightarrow> life_step W B s (new_options opts s)"
| life_copy_options: "lt_options s a = Some opts \<Longrightarrow> life_step W B s (new_options opts s)"
| life_set: "lt_options s a = Some opts \<Longrightarrow> option_setter opts opts' \<Longrightarrow>
    life_step W B s (s\<lparr>lt_options := (lt_options s)(a \<mapsto> opts')\<rparr>)"
| life_delete_options: "lt_options s a = Some opts \<Longrightarrow>
    life_step W B s (s\<lparr>lt_options := (lt_options s)(a := None), lt_deleted := insert a (lt_deleted s)\<rparr>)"
| life_pki: "set es \<subseteq> ran (lt_envs s) \<Longrightarrow>
    pki_step \<lparr>pki_heap = lt_heap s, pki_envs = es, pki_deleted = lt_pki_deleted s\<rparr>
      \<lparr>pki_heap = h, pki_envs = es, pki_deleted = D\<rparr> \<Longrightarrow>
    life_step W B s (s\<lparr>lt_heap := h, lt_pki_deleted := D\<rparr>)"
| life_env: "set es \<subseteq> ran (lt_envs s) \<Longrightarrow>
    pki_step \<lparr>pki_heap = lt_heap s, pki_envs = es, pki_deleted = lt_pki_deleted s\<rparr>
      \<lparr>pki_heap = h, pki_envs = env # es, pki_deleted = D\<rparr> \<Longrightarrow>
    life_step W B s (new_env env (s\<lparr>lt_heap := h, lt_pki_deleted := D\<rparr>))"
| life_copy_env: "lt_envs s b = Some env \<Longrightarrow> life_step W B s (new_env env s)"
| life_delete_env: "lt_envs s b = Some env \<Longrightarrow>
    life_step W B s (s\<lparr>lt_envs := (lt_envs s)(b := None), lt_deleted := insert b (lt_deleted s)\<rparr>)"
| life_construct: "objs (lt_sys s) i = None \<Longrightarrow> lt_options s a = Some opts \<Longrightarrow> lt_envs s b \<noteq> None \<Longrightarrow>
    ssl_construct W a opts b (wd (lt_sys s)) = (Inr x, w) \<Longrightarrow>
    life_step W B s (s\<lparr>lt_sys := \<lparr>objs = (objs (lt_sys s))(i \<mapsto> x), wd = w\<rparr>\<rparr>)"
| life_throws: "lt_options s a = Some opts \<Longrightarrow> lt_envs s b \<noteq> None \<Longrightarrow>
    ssl_construct W a opts b (wd (lt_sys s)) = (Inl e, w) \<Longrightarrow>
    life_step W B s (s\<lparr>lt_sys := \<lparr>objs = objs (lt_sys s), wd = w\<rparr>\<rparr>)"
| life_default: "objs (lt_sys s) i = None \<Longrightarrow> default_construct ord env_first W B F s = (Inr x, t) \<Longrightarrow>
    life_step W B s (bind_object i x t)"
| life_default_throws: "default_construct ord env_first W B F s = (Inl e, t) \<Longrightarrow> life_step W B s t"
| life_object: "object_step W (lt_sys s) y \<Longrightarrow> life_step W B s (s\<lparr>lt_sys := y\<rparr>)"

section \<open>What the default construction does\<close>

lemma default_construct_sys:
  assumes "default_construct ord env_first W B F s = (r, t)"
  shows "lt_next t = lt_next s + 2 \<and> lt_deleted t = lt_deleted s \<and> lt_pki_deleted t = lt_pki_deleted s
     \<and> lt_heap t = snd (default_arguments ord env_first B F (lt_heap s))
     \<and> (case fst (default_arguments ord env_first B F (lt_heap s)) of
          Inl e \<Rightarrow> r = Inl e \<and> lt_sys t = lt_sys s \<and> lt_options t = lt_options s \<and> lt_envs t = lt_envs s
            \<and> lt_temporaries t = lt_temporaries s
        | Inr (opts, env) \<Rightarrow> ssl_construct W (lt_next s) opts (lt_next s + 1) (wd (lt_sys s)) = (r, wd (lt_sys t))
            \<and> objs (lt_sys t) = objs (lt_sys s)
            \<and> lt_options t = (lt_options s)(lt_next s := None) \<and> lt_envs t = (lt_envs s)(lt_next s + 1 := None)
            \<and> lt_temporaries t = {lt_next s, lt_next s + 1} \<union> lt_temporaries s)"
  using assms by (auto simp: default_construct_def destroy_temporaries_def Let_def split: prod.splits sum.splits)

lemma default_construct_objs: "default_construct ord env_first W B F s = (r, t) \<Longrightarrow> objs (lt_sys t) = objs (lt_sys s)"
  using default_construct_sys [of ord env_first W B F s r t] by (auto split: sum.splits)

lemma default_arguments_grows:
  assumes "heap_ok h"
  shows "heap_ok (snd (default_arguments ord env_first B F h)) \<and> grows h (snd (default_arguments ord env_first B F h))"
proof -
  obtain r h1 where m: "mk_PKIEnvironment F ord None None None h = (r, h1)" by fastforce
  from mk_PKIEnvironment_ok [OF assms refers_None refers_None refers_None this] assms show ?thesis
    by (auto simp: default_arguments_def m split: sum.splits)
qed

section \<open>Which references are valid\<close>

text \<open>A context gets its references from the constructor and keeps them, as do its copies.\<close>

lemma object_step_refs:
  "object_step W s t \<Longrightarrow> objs t i = Some x \<Longrightarrow>
     \<exists>j z. objs s j = Some z \<and> sc_options x = sc_options z \<and> sc_pkiEnv x = sc_pkiEnv z"
  by (induction rule: object_step.induct)
    (fastforce simp: ssl_copy_construct_def ssl_move_construct_def ssl_copy_assign_def ssl_move_assign_def
      split: if_splits prod.splits)+

lemma ssl_construct_refs:
  "ssl_construct W a opts b w = (Inr x, w') \<Longrightarrow> sc_options x = a \<and> sc_pkiEnv x = b"
  by (erule ssl_construct_cases) (auto split: if_splits)

lemma default_construct_refs:
  assumes "default_construct ord env_first W B F s = (Inr x, t)"
  shows "sc_options x = lt_next s \<and> sc_pkiEnv x = lt_next s + 1 \<and> lt_temporaries t = {lt_next s, lt_next s + 1} \<union> lt_temporaries s"
proof -
  note d = default_construct_sys [OF assms]
  obtain opts where "ssl_construct W (lt_next s) opts (lt_next s + 1) (wd (lt_sys s)) = (Inr x, wd (lt_sys t))"
    and "lt_temporaries t = {lt_next s, lt_next s + 1} \<union> lt_temporaries s"
    using d by (cases "fst (default_arguments ord env_first B F (lt_heap s))") auto
  with ssl_construct_refs show ?thesis by blast
qed

text \<open>No address is given out twice, and none is that of options and of an environment.\<close>

definition fresh_inv :: "'u life \<Rightarrow> bool" where
  "fresh_inv s \<longleftrightarrow> (\<forall>a \<ge> lt_next s. lt_options s a = None \<and> lt_envs s a = None)
     \<and> (\<forall>a. lt_options s a = None \<or> lt_envs s a = None)"

lemma fresh_invD:
  assumes "fresh_inv s"
  shows "lt_options s a = Some opts \<Longrightarrow> a < lt_next s \<and> lt_envs s a = None"
    and "lt_envs s a = Some env \<Longrightarrow> a < lt_next s \<and> lt_options s a = None"
  using assms unfolding fresh_inv_def by (metis not_le option.distinct(1))+

lemma default_construct_maps:
  assumes "fresh_inv s" and "default_construct ord env_first W B F s = (r, t)"
  shows "lt_options t = lt_options s \<and> lt_envs t = lt_envs s"
  using assms(1) default_construct_sys [OF assms(2)] by (auto simp: fresh_inv_def split: sum.splits)

lemma life_step_fresh: "life_step W B s t \<Longrightarrow> fresh_inv s \<Longrightarrow> fresh_inv t"
proof (induction rule: life_step.induct)
  case (life_default s i ord env_first F x t)
  then show ?case using default_construct_sys [OF life_default(2)] default_construct_maps [OF life_default(3,2)]
    by (simp add: fresh_inv_def bind_object_def)
next
  case (life_default_throws ord env_first F s e t)
  then show ?case using default_construct_sys [OF life_default_throws(1)] default_construct_maps [OF life_default_throws(2,1)]
    by (simp add: fresh_inv_def)
next
  case (life_set s a opts opts')
  with fresh_invD(1) [OF life_set(3,1)] show ?case by (auto simp: fresh_inv_def)
qed (auto simp: fresh_inv_def new_options_def new_env_def)

interpretation life: transition_system life_init "life_step W B" fresh_inv for W B
  by unfold_locales (simp add: life_init_def fresh_inv_def, rule life_step_fresh)

text \<open>An address that was given out and belongs to no object is never in use again.\<close>

definition dead :: "addr \<Rightarrow> 'u life \<Rightarrow> bool" where
  "dead a s \<longleftrightarrow> a < lt_next s \<and> lt_options s a = None \<and> lt_envs s a = None"

lemma life_step_dead: "life_step W B s t \<Longrightarrow> dead a s \<Longrightarrow> dead a t"
proof (induction rule: life_step.induct)
  case (life_default s i ord env_first F x t)
  then show ?case using default_construct_sys [OF life_default(2)]
    by (auto simp: dead_def bind_object_def split: sum.splits)
next
  case (life_default_throws ord env_first F s e t)
  then show ?case using default_construct_sys [OF life_default_throws(1)] by (auto simp: dead_def split: sum.splits)
qed (auto simp: dead_def new_options_def new_env_def)

lemma life_run_dead: "(life_step W B)\<^sup>*\<^sup>* s t \<Longrightarrow> dead a s \<Longrightarrow> dead a t"
  by (induction rule: rtranclp_induct) (auto intro: life_step_dead)

lemma default_construct_dead:
  assumes "fresh_inv s" and "default_construct ord env_first W B F s = (Inr x, t)"
  shows "dead (sc_options x) (bind_object i x t) \<and> dead (sc_pkiEnv x) (bind_object i x t)"
  using default_construct_refs [OF assms(2)] default_construct_sys [OF assms(2)] default_construct_maps [OF assms] assms(1)
  by (simp add: dead_def fresh_inv_def bind_object_def)

text \<open>
  The invariant of the references: those of a context are alive, or were deleted by the program, or are the two
  temporaries of one call; what was deleted or temporary is dead; and the references of the environments are as those
  of programs over PKI objects.
\<close>

definition refs_inv :: "'u life \<Rightarrow> bool" where
  "refs_inv s \<longleftrightarrow> (\<forall>a \<in> lt_deleted s \<union> lt_temporaries s. dead a s)
     \<and> (\<forall>i x. objs (lt_sys s) i = Some x \<longrightarrow>
          (lt_options s (sc_options x) \<noteq> None \<or> sc_options x \<in> lt_deleted s \<union> lt_temporaries s)
        \<and> (lt_envs s (sc_pkiEnv x) \<noteq> None \<or> sc_pkiEnv x \<in> lt_deleted s \<union> lt_temporaries s)
        \<and> sc_options x < lt_next s \<and> sc_pkiEnv x < lt_next s
        \<and> (sc_options x \<in> lt_temporaries s \<longleftrightarrow> sc_pkiEnv x \<in> lt_temporaries s))"

definition life_pki_inv :: "'u life \<Rightarrow> bool" where
  "life_pki_inv s \<longleftrightarrow> heap_inv (lt_heap s) (lt_pki_deleted s)
     \<and> (\<forall>env \<in> ran (lt_envs s). env_refs_ok (lt_heap s) (lt_pki_deleted s) env)"

definition life_inv :: "'u life \<Rightarrow> bool" where
  "life_inv s \<longleftrightarrow> fresh_inv s \<and> refs_inv s \<and> life_pki_inv s"

lemma ran_upd_subset: "ran (m(a \<mapsto> b)) \<subseteq> insert b (ran m)"
  by (auto simp: ran_def)

lemma ran_del_subset: "ran (m(a := None)) \<subseteq> ran m"
  by (auto simp: ran_def)

text \<open>The PKI objects.\<close>

lemma life_pki_keep:
  "life_pki_inv s \<Longrightarrow> lt_heap t = lt_heap s \<Longrightarrow> lt_pki_deleted t = lt_pki_deleted s \<Longrightarrow> ran (lt_envs t) \<subseteq> ran (lt_envs s) \<Longrightarrow>
     life_pki_inv t"
  unfolding life_pki_inv_def by auto

lemma life_pki_effect:
  assumes inv: "life_pki_inv s" and es: "set es \<subseteq> ran (lt_envs s)"
    and st: "pki_step \<lparr>pki_heap = lt_heap s, pki_envs = es, pki_deleted = lt_pki_deleted s\<rparr>
      \<lparr>pki_heap = lt_heap t, pki_envs = fs, pki_deleted = lt_pki_deleted t\<rparr>"
    and fs: "ran (lt_envs t) \<subseteq> ran (lt_envs s) \<union> set fs"
  shows "life_pki_inv t"
proof -
  let ?s = "\<lparr>pki_heap = lt_heap s, pki_envs = es, pki_deleted = lt_pki_deleted s\<rparr>"
    and ?t = "\<lparr>pki_heap = lt_heap t, pki_envs = fs, pki_deleted = lt_pki_deleted t\<rparr>"
  have h: "heap_inv (pki_heap ?s) (pki_deleted ?s)" using inv by (simp add: life_pki_inv_def)
  have e: "pki_effect ?s ?t" by (rule pki_step_effect [OF st]) (use h in \<open>simp add: heap_inv_def\<close>)
  have "pki_inv ?s" using inv es by (auto simp: pki_inv_def life_pki_inv_def)
  then have "pki_inv ?t" by (rule pki_step_inv [OF st])
  moreover have "env_refs_ok (lt_heap t) (lt_pki_deleted t) env" if "env \<in> ran (lt_envs s)" for env
    using pki_effect_inv(2) [OF e h, of env] inv that by (simp add: life_pki_inv_def)
  ultimately show ?thesis using fs by (auto simp: life_pki_inv_def pki_inv_def)
qed

lemma life_pki_default:
  assumes inv: "life_pki_inv s" "fresh_inv s" and d: "default_construct ord env_first W B F s = (r, t)"
    and u: "lt_heap u = lt_heap t" "lt_pki_deleted u = lt_pki_deleted t" "lt_envs u = lt_envs t"
  shows "life_pki_inv u"
proof -
  have ok: "heap_inv (lt_heap s) (lt_pki_deleted s)" using inv(1) by (simp add: life_pki_inv_def)
  have g: "heap_ok (lt_heap t)" "grows (lt_heap s) (lt_heap t)"
    using default_construct_sys [OF d] default_arguments_grows [of "lt_heap s" ord env_first B F] ok
    by (simp_all add: heap_inv_def)
  have D: "lt_pki_deleted t = lt_pki_deleted s" using default_construct_sys [OF d] by simp
  have "heap_inv (lt_heap t) (lt_pki_deleted t)" unfolding D by (rule heap_inv_grows [OF ok g])
  moreover have "env_refs_ok (lt_heap t) (lt_pki_deleted t) env" if "env \<in> ran (lt_envs s)" for env
    using that inv(1) env_refs_grows [OF _ g(2)] unfolding D life_pki_inv_def by blast
  ultimately show ?thesis using default_construct_maps [OF inv(2) d] by (simp add: life_pki_inv_def u)
qed

lemma life_step_pki: "life_step W B s t \<Longrightarrow> fresh_inv s \<Longrightarrow> life_pki_inv s \<Longrightarrow> life_pki_inv t"
proof (induction rule: life_step.induct)
  case (life_pki es s h D)
  with life_pki_effect [OF life_pki(4,1), of "s\<lparr>lt_heap := h, lt_pki_deleted := D\<rparr>" es] show ?case by simp
next
  case (life_env es s h env D)
  have "ran (lt_envs (new_env env (s\<lparr>lt_heap := h, lt_pki_deleted := D\<rparr>))) \<subseteq> ran (lt_envs s) \<union> set (env # es)"
    using ran_upd_subset [of "lt_envs s" "lt_next s" env] by (auto simp: new_env_def)
  with life_pki_effect [OF life_env(4,1), of "new_env env (s\<lparr>lt_heap := h, lt_pki_deleted := D\<rparr>)" "env # es"] life_env(2)
  show ?case by (simp add: new_env_def)
next
  case (life_default s i ord env_first F x t)
  then show ?case by (intro life_pki_default [OF life_default(4,3,2)]) (simp_all add: bind_object_def)
next
  case (life_default_throws ord env_first F s e t)
  then show ?case by (intro life_pki_default [OF life_default_throws(3,2,1)]) simp_all
next
  case (life_copy_env s b env)
  then have "ran (lt_envs (new_env env s)) \<subseteq> ran (lt_envs s)"
    using ran_upd_subset [of "lt_envs s" "lt_next s" env] ranI [of "lt_envs s" b env] by (auto simp: new_env_def)
  then show ?case by (intro life_pki_keep [OF life_copy_env(3)]) (simp_all add: new_env_def)
qed (erule life_pki_keep; simp add: new_options_def ran_del_subset)+

text \<open>The references of the contexts.\<close>

lemma refs_inv_keep:
  assumes inv: "refs_inv s"
    and dead: "\<And>a. dead a s \<Longrightarrow> dead a t"
    and ghosts: "lt_temporaries t = lt_temporaries s" "lt_deleted s \<subseteq> lt_deleted t"
      "\<And>a. a \<in> lt_deleted t \<Longrightarrow> a \<in> lt_deleted s \<or> dead a t"
    and alive: "\<And>a. lt_options s a \<noteq> None \<Longrightarrow> lt_options t a \<noteq> None \<or> a \<in> lt_deleted t"
      "\<And>a. lt_envs s a \<noteq> None \<Longrightarrow> lt_envs t a \<noteq> None \<or> a \<in> lt_deleted t"
    and nx: "lt_next s \<le> lt_next t"
    and objs: "\<And>i x. objs (lt_sys t) i = Some x \<Longrightarrow>
      \<exists>j z. objs (lt_sys s) j = Some z \<and> sc_options x = sc_options z \<and> sc_pkiEnv x = sc_pkiEnv z"
  shows "refs_inv t"
  unfolding refs_inv_def
proof (intro conjI ballI allI impI)
  show "dead a t" if "a \<in> lt_deleted t \<union> lt_temporaries t" for a
    using that ghosts dead inv unfolding refs_inv_def by blast
  fix i x assume "objs (lt_sys t) i = Some x"
  from objs [OF this] obtain j z where z: "objs (lt_sys s) j = Some z" "sc_options x = sc_options z" "sc_pkiEnv x = sc_pkiEnv z"
    by blast
  from inv z(1) have i: "lt_options s (sc_options z) \<noteq> None \<or> sc_options z \<in> lt_deleted s \<union> lt_temporaries s"
      "lt_envs s (sc_pkiEnv z) \<noteq> None \<or> sc_pkiEnv z \<in> lt_deleted s \<union> lt_temporaries s"
      "sc_options z < lt_next s" "sc_pkiEnv z < lt_next s"
      "sc_options z \<in> lt_temporaries s \<longleftrightarrow> sc_pkiEnv z \<in> lt_temporaries s"
    unfolding refs_inv_def by blast+
  show "lt_options t (sc_options x) \<noteq> None \<or> sc_options x \<in> lt_deleted t \<union> lt_temporaries t"
    using i(1) alive(1) ghosts(1,2) unfolding z by blast
  show "lt_envs t (sc_pkiEnv x) \<noteq> None \<or> sc_pkiEnv x \<in> lt_deleted t \<union> lt_temporaries t"
    using i(2) alive(2) ghosts(1,2) unfolding z by blast
  show "sc_options x < lt_next t" "sc_pkiEnv x < lt_next t" using i(3,4) nx unfolding z by simp_all
  show "sc_options x \<in> lt_temporaries t \<longleftrightarrow> sc_pkiEnv x \<in> lt_temporaries t" using i(5) ghosts(1) unfolding z by simp
qed

text \<open>A new context, whose references were not temporaries before.\<close>

lemma refs_inv_bind:
  assumes "refs_inv s" and "lt_options s (sc_options x) \<noteq> None \<or> sc_options x \<in> lt_temporaries s"
    and "lt_envs s (sc_pkiEnv x) \<noteq> None \<or> sc_pkiEnv x \<in> lt_temporaries s"
    and "sc_options x < lt_next s" "sc_pkiEnv x < lt_next s"
    and "sc_options x \<in> lt_temporaries s \<longleftrightarrow> sc_pkiEnv x \<in> lt_temporaries s"
  shows "refs_inv (s\<lparr>lt_sys := \<lparr>objs = (objs (lt_sys s))(i \<mapsto> x), wd = w\<rparr>\<rparr>)"
  using assms by (auto simp: refs_inv_def dead_def)

lemma refs_inv_temporaries:
  assumes inv: "refs_inv s" "fresh_inv s" and d: "default_construct ord env_first W B F s = (r, t)"
  shows "refs_inv t"
proof -
  note sys = default_construct_sys [OF d] and maps = default_construct_maps [OF inv(2) d]
  have nx: "lt_next t = lt_next s + 2" and del: "lt_deleted t = lt_deleted s" using sys by simp_all
  have tmp: "lt_temporaries t = lt_temporaries s \<or> lt_temporaries t = {lt_next s, lt_next s + 1} \<union> lt_temporaries s"
    using sys by (auto split: sum.splits)
  have dead: "dead a t" if "dead a s" for a using that maps nx by (simp add: dead_def)
  have new: "dead (lt_next s) t" "dead (lt_next s + 1) t" using inv(2) maps nx by (simp_all add: fresh_inv_def dead_def)
  show ?thesis
    unfolding refs_inv_def default_construct_objs [OF d] del maps [THEN conjunct1] maps [THEN conjunct2] nx
  proof (intro conjI ballI allI impI)
    have "\<forall>a \<in> lt_deleted s \<union> lt_temporaries s. dead a t" using inv(1) dead by (simp add: refs_inv_def)
    then show "dead a t" if "a \<in> lt_deleted s \<union> lt_temporaries t" for a
      using that tmp new by auto
    fix i x assume x: "objs (lt_sys s) i = Some x"
    note I = inv(1) [unfolded refs_inv_def, THEN conjunct2, rule_format, OF x]
    have sub: "lt_temporaries s \<subseteq> lt_temporaries t" using tmp by auto
    show "lt_options s (sc_options x) \<noteq> None \<or> sc_options x \<in> lt_deleted s \<union> lt_temporaries t"
      and "lt_envs s (sc_pkiEnv x) \<noteq> None \<or> sc_pkiEnv x \<in> lt_deleted s \<union> lt_temporaries t"
      using I sub by auto
    have lt: "sc_options x < lt_next s" "sc_pkiEnv x < lt_next s"
      and same: "sc_options x \<in> lt_temporaries s \<longleftrightarrow> sc_pkiEnv x \<in> lt_temporaries s"
      using I by blast+
    then show "sc_options x < lt_next s + 2" "sc_pkiEnv x < lt_next s + 2" by simp_all
    from tmp show "sc_options x \<in> lt_temporaries t \<longleftrightarrow> sc_pkiEnv x \<in> lt_temporaries t"
    proof
      assume "lt_temporaries t = {lt_next s, lt_next s + 1} \<union> lt_temporaries s"
      with lt same show ?thesis by simp
    qed (simp only: same)
  qed
qed

lemma life_step_refs: "life_step W B s t \<Longrightarrow> fresh_inv s \<Longrightarrow> refs_inv s \<Longrightarrow> refs_inv t"
proof (induction rule: life_step.induct)
  case (life_construct s i a opts b x w)
  have r: "sc_options x = a" "sc_pkiEnv x = b" using ssl_construct_refs [OF life_construct(4)] by simp_all
  obtain env where b: "lt_envs s b = Some env" using life_construct(3) by blast
  have al: "a < lt_next s" "b < lt_next s" "\<not> dead a s" "\<not> dead b s"
    using fresh_invD(1) [OF life_construct(5,2)] fresh_invD(2) [OF life_construct(5) b] life_construct(2) b
    by (simp_all add: dead_def)
  then have "a \<notin> lt_temporaries s" "b \<notin> lt_temporaries s" using life_construct(6) by (auto simp: refs_inv_def)
  with life_construct(2,3,6) r al show ?case by (intro refs_inv_bind) simp_all
next
  case (life_default s i ord env_first F x t)
  note inv = refs_inv_temporaries [OF life_default(4,3,2)]
  have "refs_inv (t\<lparr>lt_sys := \<lparr>objs = (objs (lt_sys t))(i \<mapsto> x), wd = wd (lt_sys t)\<rparr>\<rparr>)"
    using default_construct_refs [OF life_default(2)] default_construct_sys [OF life_default(2)]
    by (intro refs_inv_bind [OF inv]) simp_all
  then show ?case by (simp add: bind_object_def)
next
  case (life_default_throws ord env_first F s e t)
  show ?case by (rule refs_inv_temporaries [OF life_default_throws(3,2,1)])
next
  case (life_object s y)
  show ?case by (rule refs_inv_keep [OF life_object(3)])
      (use object_step_refs [OF life_object(1)] in \<open>auto simp: dead_def\<close>)
next
  case (life_delete_options s a opts)
  have "dead a (s\<lparr>lt_options := (lt_options s)(a := None), lt_deleted := insert a (lt_deleted s)\<rparr>)"
    using fresh_invD(1) [OF life_delete_options(2,1)] by (simp add: dead_def)
  then show ?case by (intro refs_inv_keep [OF life_delete_options(3)]) (auto simp: dead_def)
next
  case (life_delete_env s b env)
  have "dead b (s\<lparr>lt_envs := (lt_envs s)(b := None), lt_deleted := insert b (lt_deleted s)\<rparr>)"
    using fresh_invD(2) [OF life_delete_env(2,1)] by (simp add: dead_def)
  then show ?case by (intro refs_inv_keep [OF life_delete_env(3)]) (auto simp: dead_def)
next
  case (life_set s a opts opts')
  show ?case by (rule refs_inv_keep [OF life_set(4)]) (use life_set(1) in \<open>auto simp: dead_def\<close>)
qed (erule refs_inv_keep; auto simp: dead_def new_options_def new_env_def)+

interpretation life_refs: transition_system life_init "life_step W B" life_inv for W B
proof
  show "life_init s \<Longrightarrow> life_inv s" for s :: "'a life"
    by (simp add: life_init_def life_inv_def fresh_inv_def refs_inv_def life_pki_inv_def ssl_init_def heap_inv_def
        heap_ok_empty points_def) (simp add: empty_heap_def)
  show "life_inv s \<Longrightarrow> life_step W B s t \<Longrightarrow> life_inv t" for s t :: "'a life"
    unfolding life_inv_def using life_step_fresh life_step_refs life_step_pki by blast
qed

section \<open>When the default arguments throw\<close>

lemma throws_map_sum [simp]: "throws (map_sum f g m) \<longleftrightarrow> throws m"
  by (cases m) simp_all

lemma default_store_throws:
  "throws (mk_LocalCertificateStore F None) \<longleftrightarrow> throws (spec_root F None)"
  "throws (mk_LocalKeyStore F None) \<longleftrightarrow> throws (spec_root F None)"
  using arg_cong [OF certs.mk_spec [of F None], of throws] arg_cong [OF keys.mk_spec [of F None], of throws]
  by simp_all

lemma authority_getDefault_stores:
  "default_certificates (snd (authority_getDefault h)) = default_certificates h"
  "default_keys (snd (authority_getDefault h)) = default_keys h"
  by (simp_all add: authority_getDefault_def mk_CertificateAuthority_def new_revocation_def new_authority_def
      split: option.split)

lemma certificates_getDefault_outcome:
  "throws (fst (certificates_getDefault F h)) \<longleftrightarrow> default_certificates h = None \<and> throws (spec_root F None)"
  "default_keys (snd (certificates_getDefault F h)) = default_keys h"
  using default_store_throws(1) [of F]
  by (auto simp: certificates_getDefault_def new_certificate_store_def split: option.split sum.split)

lemma keys_getDefault_keeps: "default_certificates (snd (keys_getDefault F h)) = default_certificates h"
  by (simp add: keys_getDefault_def new_key_store_def split: option.split sum.split)

lemma keys_getDefault_outcome:
  "throws (fst (keys_getDefault F h)) \<longleftrightarrow> default_keys h = None \<and> throws (spec_root F None)"
  using default_store_throws(2) [of F]
  by (auto simp: keys_getDefault_def new_key_store_def split: option.split sum.split)

text \<open>In any order, the arguments throw when one of the two stores is to be made and cannot.\<close>

definition store_throws :: "filesystem \<Rightarrow> 'u heap \<Rightarrow> static_var \<Rightarrow> bool" where
  "store_throws F h x \<longleftrightarrow> x \<noteq> Authority_Instance \<and> instance_of h x = None \<and> throws (spec_root F None)"

lemma getDefault_throws:
  assumes "getDefault F x h = (r, h')"
  shows "throws r \<longleftrightarrow> store_throws F h x" and "y \<noteq> x \<Longrightarrow> store_throws F h' y \<longleftrightarrow> store_throws F h y"
proof -
  note out = authority_getDefault_stores [of h] certificates_getDefault_outcome [of F h] keys_getDefault_outcome [of F h]
    keys_getDefault_keeps [of F h]
  show "throws r \<longleftrightarrow> store_throws F h x"
    using assms out by (cases x) (auto simp: store_throws_def split: prod.splits)
  show "store_throws F h' y \<longleftrightarrow> store_throws F h y" if "y \<noteq> x"
    using assms out that by (cases x; cases y) (auto simp: store_throws_def split: prod.splits)
qed

lemma eval_arguments_throws:
  "distinct xs \<Longrightarrow> throws (fst (eval_arguments F (passed None None None) xs args h)) \<longleftrightarrow> (\<exists>x \<in> set xs. store_throws F h x)"
proof (induction xs arbitrary: args h)
  case (Cons x xs)
  have given: "passed None None None x = None" by (cases x) simp_all
  obtain r h1 where r: "getDefault F x h = (r, h1)" by fastforce
  note t = getDefault_throws [OF r]
  show ?case
  proof (cases r)
    case (Inr a)
    have "(\<exists>y \<in> set xs. store_throws F h1 y) \<longleftrightarrow> (\<exists>y \<in> set xs. store_throws F h y)"
      using t(2) Cons.prems by (metis distinct.simps(2))
    with t(1) Inr Cons given r show ?thesis by simp
  qed (use t(1) given r in simp)
qed simp

lemma default_env_throws:
  "throws (fst (mk_PKIEnvironment F ord None None None h)) \<longleftrightarrow>
     (default_certificates h = None \<or> default_keys h = None) \<and> throws (spec_root F None)"
proof -
  have "throws (fst (mk_PKIEnvironment F ord None None None h))
      \<longleftrightarrow> throws (fst (eval_arguments F (passed None None None) (order_of ord) Map.empty h))"
    by (auto simp: mk_PKIEnvironment_def split: prod.split sum.split)
  also have "\<dots> \<longleftrightarrow> (\<exists>x. store_throws F h x)"
    using eval_arguments_throws [of "order_of ord" F Map.empty h] by (simp add: set_order_of distinct_order_of)
  also have "\<dots> \<longleftrightarrow> (default_certificates h = None \<or> default_keys h = None) \<and> throws (spec_root F None)"
    using static_all [of "\<lambda>x. \<not> store_throws F h x"] by (auto simp: store_throws_def)
  finally show ?thesis .
qed

lemma default_arguments_throws:
  "throws (fst (default_arguments ord env_first B F h)) \<longleftrightarrow> throws (getDefaultCipherList B TLSV1_3)
     \<or> (default_certificates h = None \<or> default_keys h = None) \<and> throws (spec_root F None)"
proof -
  obtain r h1 where e: "mk_PKIEnvironment F ord None None None h = (r, h1)" by fastforce
  have "throws (fst (default_arguments ord env_first B F h)) \<longleftrightarrow> throws (getDefaultCipherList B TLSV1_3) \<or> throws r"
    by (cases "getDefaultCipherList B TLSV1_3"; cases r)
      (simp_all add: default_arguments_def mk_SSLOptions_def e)
  with default_env_throws [of F ord h] show ?thesis by (simp add: e)
qed

lemma default_arguments_options:
  "fst (default_arguments ord env_first B F h) = Inr (opts, env) \<Longrightarrow> mk_SSLOptions B CLIENT = Inr opts"
  by (auto simp: default_arguments_def result_simps split: if_splits prod.splits sum.splits)

section \<open>A sample program\<close>

definition sample_life :: "nat life" where
  "sample_life = \<lparr>lt_options = Map.empty, lt_envs = Map.empty, lt_next = 0, lt_heap = empty_heap,
     lt_sys = \<lparr>objs = Map.empty, wd = sample_world\<rparr>, lt_deleted = {}, lt_temporaries = {}, lt_pki_deleted = {}\<rparr>"

lemma sample_life_init: "life_init sample_life"
  by (simp add: sample_life_def life_init_def ssl_init_def sample_world_def)

definition sample_tls13_options :: SSLOptions where
  "sample_tls13_options = \<lparr>peerType = CLIENT, peerCertPath = None, minimumSupportedProtocolVersion = TLSV1_3,
     ciphers = all_tls13\<rparr>"

lemma sample_mk_options: "mk_SSLOptions full_build CLIENT = Inr sample_tls13_options"
proof -
  have "getDefaultCipherList full_build TLSV1_3 = Inr all_tls13"
    by (simp add: getDefaultCipherList_Inr full_build_def tls13_ciphers_def all_tls13_def)
  then show ?thesis by (simp add: mk_SSLOptions_def sample_tls13_options_def)
qed

lemma sample_tls13_construct: "\<exists>x w. ssl_construct sample_wolfssl a sample_tls13_options b sample_world = (Inr x, w)"
  by (simp add: ssl_construct_def call_once_init_def client_method_def wolfSSL_CTX_new_eq Let_def
      sample_wolfssl_def sample_tls13_options_def sample_world_def all_tls13_def
      join_ciphers_def c_str_def NUL_def log_event_def)

lemma sample_default_construct:
  "\<exists>x s'. default_construct Order_ACK False sample_wolfssl full_build sample_fs sample_life = (Inr x, s')"
proof -
  obtain e and h :: "nat heap" where "mk_PKIEnvironment sample_fs Order_ACK None None None empty_heap = (Inr e, h)"
    using sample_first_mk by blast
  moreover obtain x w where "ssl_construct sample_wolfssl 0 sample_tls13_options (Suc 0) sample_world = (Inr x, w)"
    using sample_tls13_construct by blast
  ultimately show ?thesis
    by (simp add: default_construct_def default_arguments_def sample_mk_options sample_life_def)
qed

text \<open>Options at 0, an environment at 1, and a context that refers to both; then the options are deleted.\<close>

lemma sample_deletes:
  "\<exists>(s :: nat life) x. reachable life_init (life_step sample_wolfssl full_build) s
     \<and> objs (lt_sys s) 0 = Some x \<and> sc_options x = 0 \<and> sc_pkiEnv x = 1
     \<and> lt_deleted s = {0} \<and> lt_temporaries s = {}"
proof -
  let ?step = "life_step sample_wolfssl full_build :: nat life \<Rightarrow> nat life \<Rightarrow> bool"
  obtain e and h :: "nat heap" where mk: "mk_PKIEnvironment sample_fs Order_ACK None None None empty_heap = (Inr e, h)"
    using sample_first_mk by blast
  let ?s1 = "new_options sample_tls13_options sample_life"
  let ?s2 = "new_env e (?s1\<lparr>lt_heap := h, lt_pki_deleted := {}\<rparr>)"
  have 1: "reachable life_init ?step ?s1"
    using reachable_init [of life_init, OF sample_life_init] life_step.life_options [OF sample_mk_options]
    by (rule reachable_step)
  have "pki_step \<lparr>pki_heap = lt_heap ?s1, pki_envs = [], pki_deleted = lt_pki_deleted ?s1\<rparr>
      \<lparr>pki_heap = h, pki_envs = [e], pki_deleted = {}\<rparr>"
    using pki_step.environment [of "\<lparr>pki_heap = empty_heap, pki_envs = [], pki_deleted = {}\<rparr>" None None None
        sample_fs Order_ACK "Inr e" h] mk
    by (simp add: new_options_def sample_life_def)
  then have 2: "reachable life_init ?step ?s2"
    using reachable_step [OF 1 life_step.life_env [of "[]"]] by simp
  obtain x w where x: "ssl_construct sample_wolfssl 0 sample_tls13_options 1 sample_world = (Inr x, w)"
    using sample_tls13_construct by blast
  let ?s3 = "?s2\<lparr>lt_sys := \<lparr>objs = (objs (lt_sys ?s2))(0 \<mapsto> x), wd = w\<rparr>\<rparr>"
  have "?step ?s2 ?s3"
    by (rule life_step.life_construct [where a = 0 and b = 1])
      (use x in \<open>simp_all add: new_env_def new_options_def sample_life_def\<close>)
  then have "reachable life_init ?step ?s3" by (rule reachable_step [OF 2])
  moreover have "lt_options ?s3 0 = Some sample_tls13_options" "objs (lt_sys ?s3) 0 = Some x"
      "lt_deleted ?s3 = {}" "lt_temporaries ?s3 = {}"
    by (simp_all add: new_env_def new_options_def sample_life_def)
  ultimately obtain s3 where 3: "reachable life_init ?step s3" "lt_options s3 0 = Some sample_tls13_options"
      "objs (lt_sys s3) 0 = Some x" "lt_deleted s3 = {}" "lt_temporaries s3 = {}" by blast
  have "?step s3 (s3\<lparr>lt_options := (lt_options s3)(0 := None), lt_deleted := insert 0 (lt_deleted s3)\<rparr>)"
    by (rule life_step.life_delete_options [OF 3(2)])
  with 3(1) have "reachable life_init ?step (s3\<lparr>lt_options := (lt_options s3)(0 := None), lt_deleted := insert 0 (lt_deleted s3)\<rparr>)"
    by (rule reachable_step)
  with 3(3-5) ssl_construct_refs [OF x] show ?thesis
    by (intro exI [of _ "s3\<lparr>lt_options := (lt_options s3)(0 := None), lt_deleted := insert 0 (lt_deleted s3)\<rparr>"]
        exI [of _ x]) simp
qed

section \<open>Properties\<close>

text \<open>C15: what the references of a context are worth, in every state of a program that may delete anything it
  made. The reference to its options is dangling exactly when the program deleted these options, or when they were
  the temporary of a construction with default arguments; so is the reference to its environment, and both are
  temporaries or none is. If the environment is alive, its references to the authority and the stores
  dangle exactly when the program deleted the object they refer to, and so does the revocation
  pointer of the authority. No copy, move or assignment of contexts or environments makes another
  reference invalid.\<close>

theorem context_references_classified:
  assumes "reachable life_init (life_step W B) s" and "objs (lt_sys s) i = Some x"
  shows "(lt_options s (sc_options x) = None \<longleftrightarrow> sc_options x \<in> lt_deleted s \<union> lt_temporaries s)
     \<and> (lt_envs s (sc_pkiEnv x) = None \<longleftrightarrow> sc_pkiEnv x \<in> lt_deleted s \<union> lt_temporaries s)
     \<and> (sc_options x \<in> lt_temporaries s \<longleftrightarrow> sc_pkiEnv x \<in> lt_temporaries s)
     \<and> (\<forall>env. lt_envs s (sc_pkiEnv x) = Some env \<longrightarrow>
          (getCertificateAuthority env (lt_heap s) = None \<longleftrightarrow> certAuth env \<in> lt_pki_deleted s)
        \<and> (getCertificateStore env (lt_heap s) = None \<longleftrightarrow> certStore env \<in> lt_pki_deleted s)
        \<and> (getKeyStore env (lt_heap s) = None \<longleftrightarrow> keyStore env \<in> lt_pki_deleted s)
        \<and> (\<forall>ca r. getCertificateAuthority env (lt_heap s) = Some ca \<and> revocationMethod ca = Some r \<longrightarrow>
             (revocations (lt_heap s) r = None \<longleftrightarrow> r \<in> lt_pki_deleted s)))"
proof -
  have inv: "refs_inv s" "heap_inv (lt_heap s) (lt_pki_deleted s)"
    and env: "env \<in> ran (lt_envs s) \<Longrightarrow> env_refs_ok (lt_heap s) (lt_pki_deleted s) env" for env
    using life_refs.inv_reachable [OF assms(1)] by (simp_all add: life_inv_def life_pki_inv_def)
  have dead: "lt_options s a = None \<and> lt_envs s a = None" if "a \<in> lt_deleted s \<union> lt_temporaries s" for a
    using inv(1) that by (auto simp: refs_inv_def dead_def)
  note I = inv(1) [unfolded refs_inv_def, THEN conjunct2, rule_format, OF assms(2)]
  have "revocations (lt_heap s) r = None \<longleftrightarrow> r \<in> lt_pki_deleted s"
    if "getCertificateAuthority env (lt_heap s) = Some ca" "revocationMethod ca = Some r" for env ca r
    using pointers_iff [OF inv(2), of r] that by (auto simp: points_def getCertificateAuthority_def)
  with I dead env_refs_iff [OF inv(2) env] show ?thesis by (blast intro: ranI)
qed

theorem context_references_classified_witness:
  "\<exists>(s :: nat life) x. objs (lt_sys s) 0 = Some x
     \<and> lt_options s (sc_options x) = None \<and> lt_envs s (sc_pkiEnv x) \<noteq> None"
proof -
  obtain s :: "nat life" and x where s: "reachable life_init (life_step sample_wolfssl full_build) s"
    and x: "objs (lt_sys s) 0 = Some x" and r: "sc_options x = 0" "sc_pkiEnv x = 1" "lt_deleted s = {0}" "lt_temporaries s = {}"
    using sample_deletes by blast
  from context_references_classified [OF s x] r have "lt_options s (sc_options x) = None" "lt_envs s (sc_pkiEnv x) \<noteq> None"
    by auto
  with x show ?thesis by blast
qed

text \<open>C25: a context constructed with default arguments refers to options and to an environment that no
  longer exist when the constructor has returned, and that never exist again whatever the program
  does; a copy of it refers to the same, and an assignment, also from a context whose references are
  valid, leaves them as they are.\<close>

theorem default_context_dangles:
  assumes "reachable life_init (life_step W B) s"
    and "default_construct ord env_first W B F s = (Inr x, s')"
    and "(life_step W B)\<^sup>*\<^sup>* (bind_object i x s') t"
  shows "lt_options t (sc_options x) = None \<and> lt_envs t (sc_pkiEnv x) = None
     \<and> sc_options (fst (ssl_copy_construct W x w)) = sc_options x
     \<and> sc_pkiEnv (fst (ssl_copy_construct W x w)) = sc_pkiEnv x
     \<and> sc_options (fst (ssl_copy_assign W same x y w)) = sc_options x
     \<and> sc_pkiEnv (fst (ssl_copy_assign W same x y w)) = sc_pkiEnv x"
proof -
  have "fresh_inv s" by (rule life.inv_reachable [OF assms(1)])
  from default_construct_dead [OF this assms(2)] have "dead (sc_options x) t" "dead (sc_pkiEnv x) t"
    using life_run_dead [OF assms(3)] by blast+
  then show ?thesis
    by (simp add: dead_def ssl_copy_construct_def ssl_copy_assign_def wolfSSL_CTX_new_eq)
qed

theorem default_context_dangles_witness:
  "\<exists>x s'. default_construct Order_ACK False sample_wolfssl full_build sample_fs sample_life = (Inr x, s')
     \<and> lt_options s' (sc_options x) = None \<and> lt_envs s' (sc_pkiEnv x) = None"
proof -
  obtain x s' where d: "default_construct Order_ACK False sample_wolfssl full_build sample_fs sample_life = (Inr x, s')"
    using sample_default_construct by blast
  have "reachable life_init (life_step sample_wolfssl full_build) sample_life"
    by (rule reachable_init) (rule sample_life_init)
  from default_context_dangles [OF this d rtranclp.rtrancl_refl] d show ?thesis
    by (auto simp: bind_object_def)
qed

text \<open>C22: \<open>SSLContext()\<close> without arguments. It throws before any call to wolfSSL exactly when the build
  has no TLS 1.3 cipher, or when a default store has not been made yet and the working directory is
  not a directory or cannot be determined, in every order of evaluation; otherwise it does what the constructor does for the
  default options, and a context that it returns has the TLS 1.3 method, the TLS 1.3 minimum
  and the default ciphers.\<close>

theorem default_context_outcomes:
  assumes "default_construct ord env_first W B F s = (r, s')"
  shows "if throws (getDefaultCipherList B TLSV1_3)
        \<or> (default_certificates (lt_heap s) = None \<or> default_keys (lt_heap s) = None) \<and> throws (spec_root F None)
     then throws r \<and> lt_sys s' = lt_sys s
     else \<exists>cs. getDefaultCipherList B TLSV1_3 = Inr cs
       \<and> (case r of
            Inl e \<Rightarrow> fst (ssl_construct W (lt_next s) \<lparr>peerType = CLIENT, peerCertPath = None,
              minimumSupportedProtocolVersion = TLSV1_3, ciphers = cs\<rparr> (lt_next s + 1) (wd (lt_sys s))) = Inl e
          | Inr x \<Rightarrow> (\<exists>c. getNativeHandle x = Some c
              \<and> ctx_config (SSL_SUCCESS W) (events (wd (lt_sys s'))) c
                = Some (wolfTLSv1_3_client_method, Some TLS1_3_VERSION, Some (c_str (join_ciphers cs)))))"
proof (cases "fst (default_arguments ord env_first B F (lt_heap s))")
  case (Inl e)
  with default_arguments_throws [of ord env_first B F "lt_heap s"] default_construct_sys [OF assms]
  show ?thesis by auto
next
  case (Inr a)
  obtain opts env where a: "a = (opts, env)" by fastforce
  from default_arguments_options [of ord env_first B F "lt_heap s" opts env] Inr a
  obtain cs where cs: "getDefaultCipherList B TLSV1_3 = Inr cs"
    and o: "opts = \<lparr>peerType = CLIENT, peerCertPath = None, minimumSupportedProtocolVersion = TLSV1_3, ciphers = cs\<rparr>"
    by (auto simp: mk_SSLOptions_def result_simps)
  have c: "ssl_construct W (lt_next s) opts (lt_next s + 1) (wd (lt_sys s)) = (r, wd (lt_sys s'))"
    using default_construct_sys [OF assms] Inr a by simp
  have "\<exists>c. getNativeHandle x = Some c
      \<and> ctx_config (SSL_SUCCESS W) (events (wd (lt_sys s'))) c
        = Some (wolfTLSv1_3_client_method, Some TLS1_3_VERSION, Some (c_str (join_ciphers cs)))"
    if "r = Inr x" for x
    using c that by (cases rule: ssl_construct_cases)
      (auto simp: o client_method_def getNativeHandle_def split: if_splits)
  with c default_arguments_throws [of ord env_first B F "lt_heap s"] Inr cs show ?thesis
    by (cases r) (auto simp: o)
qed

theorem default_context_outcomes_witness:
  "\<exists>x s' c. default_construct Order_ACK False sample_wolfssl full_build sample_fs sample_life = (Inr x, s')
     \<and> getNativeHandle x = Some c
     \<and> (\<exists>l. ctx_config 1 (events (wd (lt_sys s'))) c = Some (wolfTLSv1_3_client_method, Some TLS1_3_VERSION, Some l))"
proof -
  obtain x s' where d: "default_construct Order_ACK False sample_wolfssl full_build sample_fs sample_life = (Inr x, s')"
    using sample_default_construct by blast
  have "SSL_SUCCESS sample_wolfssl = 1" by (simp add: sample_wolfssl_def)
  with default_context_outcomes [OF d] d show ?thesis by (force split: if_splits)
qed

end
