(* ===== verification/Iggy_Statics.thy ===== *)
theory Iggy_Statics
  imports Iggy_Pki
begin

text \<open>
  The default arguments of \<open>PKIEnvironment\<close> (\<^verbatim>\<open>sdk/net/crypto/crypto.h\<close>) evaluated by several
  threads at once. Each is the result of a \<open>getDefault\<close> function with a local static instance: the
  first thread that gets there constructs it, threads that come meanwhile wait, and when the
  constructor throws, the next thread tries again. The three arguments are evaluated in any order, which
  the language leaves open, and the file system may change between any two steps.
\<close>

section \<open>One thread\<close>

text \<open>
  What a thread that constructs a \<open>PKIEnvironment\<close> is doing: evaluating its arguments, with those it
  has; constructing a static instance; or finished.
\<close>

datatype env_pc =
    Evaluating "static_var \<rightharpoonup> addr"
  | Making static_var "static_var \<rightharpoonup> addr"
  | Env PKIEnvironment
  | Env_Threw exn

text \<open>Shared by the threads: the guard of each static variable, the objects, and the instances made.\<close>

record 'u env_threads =
  env_pcs :: "nat \<Rightarrow> env_pc"
  guards :: "static_var \<Rightarrow> nat option"
  shared :: "'u heap"
  made :: "static_var list"

definition set_pc :: "nat \<Rightarrow> env_pc \<Rightarrow> 'u env_threads \<Rightarrow> 'u env_threads" where
  "set_pc i p s = s\<lparr>env_pcs := (env_pcs s)(i := p)\<rparr>"

definition set_guard :: "static_var \<Rightarrow> nat option \<Rightarrow> 'u env_threads \<Rightarrow> 'u env_threads" where
  "set_guard x g s = s\<lparr>guards := (guards s)(x := g)\<rparr>"

text \<open>
  The next step of thread \<open>i\<close>, which goes for argument \<open>x\<close> when it starts another one;
  \<open>None\<close> when it has that argument, waits for another thread, or has finished.
\<close>

definition env_step ::
  "filesystem \<Rightarrow> static_var \<Rightarrow> nat \<Rightarrow> 'u env_threads \<Rightarrow> 'u env_threads option" where
  "env_step F x i s = (case env_pcs s i of
     Evaluating args \<Rightarrow> (case assemble args of
         Some e \<Rightarrow> Some (set_pc i (Env e) s)
       | None \<Rightarrow>
           if args x \<noteq> None then None
           else (case instance_of (shared s) x of
               Some a \<Rightarrow> Some (set_pc i (Evaluating (args(x \<mapsto> a))) s)
             | None \<Rightarrow> (case guards s x of
                   None \<Rightarrow> Some (set_pc i (Making x args) (set_guard x (Some i) s))
                 | Some _ \<Rightarrow> None)))
   | Making y args \<Rightarrow> (case getDefault F y (shared s) of
         (Inr a, h) \<Rightarrow> Some (set_pc i (Evaluating (args(y \<mapsto> a)))
           (set_guard y None (s\<lparr>shared := h, made := y # made s\<rparr>)))
       | (Inl e, h) \<Rightarrow> Some (set_pc i (Env_Threw e) (set_guard y None (s\<lparr>shared := h\<rparr>))))
   | Env _ \<Rightarrow> None
   | Env_Threw _ \<Rightarrow> None)"

section \<open>All threads\<close>

definition env_threads_init :: "'u heap \<Rightarrow> 'u env_threads \<Rightarrow> bool" where
  "env_threads_init h s \<longleftrightarrow> heap_ok h
     \<and> s = \<lparr>env_pcs = \<lambda>_. Evaluating Map.empty, guards = \<lambda>_. None, shared = h, made = []\<rparr>"

inductive env_threads_step :: "nat \<Rightarrow> 'u env_threads \<Rightarrow> 'u env_threads \<Rightarrow> bool" for n where
  "i < n \<Longrightarrow> env_step F x i s = Some t \<Longrightarrow> env_threads_step n s t"

inductive_cases env_threads_stepE: "env_threads_step n s t"

text \<open>The arguments a thread has got.\<close>

primrec arguments :: "env_pc \<Rightarrow> static_var \<rightharpoonup> addr" where
  "arguments (Evaluating args) = args"
| "arguments (Making x args) = args"
| "arguments (Env e) = [Authority_Instance \<mapsto> certAuth e, Certificates_Instance \<mapsto> certStore e, Keys_Instance \<mapsto> keyStore e]"
| "arguments (Env_Threw e) = Map.empty"

definition missing :: "(static_var \<rightharpoonup> addr) \<Rightarrow> static_var set" where
  "missing args = {x. args x = None}"

primrec env_pc_weight :: "env_pc \<Rightarrow> nat" where
  "env_pc_weight (Evaluating args) = Suc (2 * card (missing args))"
| "env_pc_weight (Making x args) = 2 * card (missing args)"
| "env_pc_weight (Env e) = 0"
| "env_pc_weight (Env_Threw e) = 0"

definition env_weight :: "nat \<Rightarrow> 'u env_threads \<Rightarrow> nat" where
  "env_weight n s = (\<Sum>i<n. env_pc_weight (env_pcs s i))"

definition env_finished :: "env_pc \<Rightarrow> bool" where
  "env_finished p \<longleftrightarrow> (\<exists>e. p = Env e) \<or> (\<exists>e. p = Env_Threw e)"

text \<open>
  The invariant: a guard is held by the thread that constructs, and only while there is no
  instance; what a thread has got is the instance; each instance was there at the start or was
  made once.
\<close>

definition env_threads_inv :: "nat \<Rightarrow> 'u heap \<Rightarrow> 'u env_threads \<Rightarrow> bool" where
  "env_threads_inv n h s \<longleftrightarrow> heap_ok (shared s) \<and> grows h (shared s)
     \<and> (\<forall>x i. guards s x = Some i \<longrightarrow> i < n \<and> (\<exists>args. env_pcs s i = Making x args))
     \<and> (\<forall>i x args. env_pcs s i = Making x args \<longrightarrow> guards s x = Some i \<and> instance_of (shared s) x = None)
     \<and> (\<forall>i x a. arguments (env_pcs s i) x = Some a \<longrightarrow> instance_of (shared s) x = Some a)
     \<and> (\<forall>x. instance_of h x \<noteq> None \<longrightarrow> instance_of (shared s) x = instance_of h x)
     \<and> distinct (made s) \<and> set (made s) = {x. instance_of h x = None \<and> instance_of (shared s) x \<noteq> None}"

section \<open>Lemmas\<close>

lemma set_pc_simps [simp]:
  "env_pcs (set_pc i p s) = (env_pcs s)(i := p)" "guards (set_pc i p s) = guards s"
  "shared (set_pc i p s) = shared s" "made (set_pc i p s) = made s"
  by (simp_all add: set_pc_def)

lemma set_guard_simps [simp]:
  "env_pcs (set_guard x g s) = env_pcs s" "guards (set_guard x g s) = (guards s)(x := g)"
  "shared (set_guard x g s) = shared s" "made (set_guard x g s) = made s"
  by (simp_all add: set_guard_def)

lemma static_UNIV: "(UNIV :: static_var set) = {Authority_Instance, Certificates_Instance, Keys_Instance}"
  using static_var.exhaust by auto

lemma finite_static [simp]: "finite (A :: static_var set)"
  by (rule finite_subset [OF subset_UNIV]) (simp add: static_UNIV)

lemma missing_upd: "args x = None \<Longrightarrow> card (missing args) = Suc (card (missing (args(x \<mapsto> a))))"
proof -
  assume "args x = None"
  then have "missing args = insert x (missing (args(x \<mapsto> a)))" "x \<notin> missing (args(x \<mapsto> a))"
    by (auto simp: missing_def)
  then show ?thesis by simp
qed

lemma assemble_None: "assemble args = None \<longleftrightarrow> missing args \<noteq> {}"
proof -
  have "missing args = {} \<longleftrightarrow> (\<forall>x \<in> UNIV. args x \<noteq> None)" by (simp add: missing_def)
  then show ?thesis by (auto simp: assemble_def static_UNIV split: option.split)
qed

lemma assemble_arguments: "assemble args = Some e \<Longrightarrow> arguments (Env e) = args"
proof
  fix x assume "assemble args = Some e"
  then show "arguments (Env e) x = args x"
    by (cases x) (auto simp: assemble_def split: option.splits)
qed

lemma getDefault_threw: "getDefault F x h = (Inl e, h') \<Longrightarrow> h' = h"
  by (cases x) (auto simp: certificates_getDefault_def keys_getDefault_def split: prod.splits sum.splits option.splits)

text \<open>The three kinds of steps and how a thread finishes.\<close>

lemma env_step_cases:
  assumes "env_step F x i s = Some t"
  obtains (assembled) args e where "env_pcs s i = Evaluating args" "assemble args = Some e" "t = set_pc i (Env e) s"
  | (found) args a where "env_pcs s i = Evaluating args" "args x = None" "instance_of (shared s) x = Some a"
      "t = set_pc i (Evaluating (args(x \<mapsto> a))) s"
  | (locks) args where "env_pcs s i = Evaluating args" "args x = None" "instance_of (shared s) x = None" "guards s x = None"
      "t = set_pc i (Making x args) (set_guard x (Some i) s)"
  | (constructs) y args a h where "env_pcs s i = Making y args" "getDefault F y (shared s) = (Inr a, h)"
      "t = set_pc i (Evaluating (args(y \<mapsto> a))) (set_guard y None (s\<lparr>shared := h, made := y # made s\<rparr>))"
  | (fails) y args e h where "env_pcs s i = Making y args" "getDefault F y (shared s) = (Inl e, h)"
      "t = set_pc i (Env_Threw e) (set_guard y None (s\<lparr>shared := h\<rparr>))"
  using assms unfolding env_step_def
  by (auto split: env_pc.splits option.splits if_splits prod.splits sum.splits)

lemma env_threads_init_inv: "env_threads_init h s \<Longrightarrow> env_threads_inv n h s"
  by (auto simp: env_threads_init_def env_threads_inv_def)

lemma env_threads_invD:
  assumes "env_threads_inv n h s"
  shows "heap_ok (shared s)" and "grows h (shared s)"
    and "guards s x = Some i \<Longrightarrow> i < n \<and> (\<exists>args. env_pcs s i = Making x args)"
    and "env_pcs s i = Making x args \<Longrightarrow> guards s x = Some i \<and> instance_of (shared s) x = None"
    and "arguments (env_pcs s i) x = Some a \<Longrightarrow> instance_of (shared s) x = Some a"
    and "instance_of h x \<noteq> None \<Longrightarrow> instance_of (shared s) x = instance_of h x"
    and "distinct (made s)" and "set (made s) = {x. instance_of h x = None \<and> instance_of (shared s) x \<noteq> None}"
  using assms unfolding env_threads_inv_def by blast+

lemma env_threads_invI:
  assumes "heap_ok (shared s)" "grows h (shared s)"
    and "\<And>x i. guards s x = Some i \<Longrightarrow> i < n \<and> (\<exists>args. env_pcs s i = Making x args)"
    and "\<And>i x args. env_pcs s i = Making x args \<Longrightarrow> guards s x = Some i \<and> instance_of (shared s) x = None"
    and "\<And>i x a. arguments (env_pcs s i) x = Some a \<Longrightarrow> instance_of (shared s) x = Some a"
    and "\<And>x. instance_of h x \<noteq> None \<Longrightarrow> instance_of (shared s) x = instance_of h x"
    and "distinct (made s)" "set (made s) = {x. instance_of h x = None \<and> instance_of (shared s) x \<noteq> None}"
  shows "env_threads_inv n h s"
  using assms unfolding env_threads_inv_def by blast

lemma env_step_inv:
  assumes inv: "env_threads_inv n h0 s" and i: "i < n" and st: "env_step F x i s = Some t"
  shows "env_threads_inv n h0 t"
proof -
  note D = env_threads_invD [OF inv]
  have ng: "guards s z \<noteq> Some i" if "env_pcs s i = Evaluating args" for z args
    using D(3) [of z i] that by auto
  from st show ?thesis
  proof (cases rule: env_step_cases)
    case (assembled args e)
    have a: "arguments (Env e) y = Some b \<Longrightarrow> instance_of (shared s) y = Some b" for y b
      unfolding assemble_arguments [OF assembled(2)] using D(5) [of i y b] assembled(1) by simp
    show ?thesis
      by (rule env_threads_invI)
        (use D assembled a ng [OF assembled(1)] in \<open>auto split: if_splits simp del: arguments.simps(3)\<close>)
  next
    case (found args a)
    then have "(args(x \<mapsto> a)) y = Some b \<Longrightarrow> instance_of (shared s) y = Some b" for y b
      using D(5) [of i y b] by (auto split: if_splits)
    with found D ng [OF found(1)] show ?thesis
      by (intro env_threads_invI) (auto split: if_splits)
  next
    case (locks args)
    then have "args z = Some b \<Longrightarrow> instance_of (shared s) z = Some b" for z b
      using D(5) [of i z b] by simp
    with locks D i ng [OF locks(1)] show ?thesis
      by (intro env_threads_invI) (auto split: if_splits)
  next
    case (constructs y args a h)
    note y = D(4) [OF constructs(1)]
    from getDefault_ok [OF D(1) constructs(2)]
    have h: "instance_of h z = (if z = y then Some a else instance_of (shared s) z)" for z by simp
    from getDefault_ok [OF D(1) constructs(2)] have ok: "heap_ok h" "grows h0 h"
      using D(2) grows_trans by blast+
    have g: "guards s z = Some j \<Longrightarrow> z \<noteq> y \<Longrightarrow> j \<noteq> i" for z j
      using D(3) [of z j] constructs(1) by auto
    have m: "env_pcs s j = Making z as \<Longrightarrow> j \<noteq> i \<Longrightarrow> z \<noteq> y" for j z as
      using D(4) [of j z as] y by auto
    have args: "(args(y \<mapsto> a)) z = Some b \<Longrightarrow> instance_of h z = Some b" for z b
      using D(5) [of i z b] constructs(1) h by (auto split: if_splits)
    have others: "arguments (env_pcs s j) z = Some b \<Longrightarrow> instance_of h z = Some b" for j z b
      using D(5) [of j z b] y h by (auto split: if_splits)
    have n0: "instance_of h0 y = None" using D(6) [of y] y by force
    with y D(8) have "y \<notin> set (made s)" by simp
    with n0 D(7,8) have md: "distinct (y # made s)"
        "set (y # made s) = {z. instance_of h0 z = None \<and> instance_of h z \<noteq> None}"
      by (auto simp: h)
    have st: "instance_of h0 z \<noteq> None \<Longrightarrow> instance_of h z = instance_of h0 z" for z
      using D(6) [of z] n0 h by auto
    show ?thesis
    proof (rule env_threads_invI)
      fix z j
      show "guards t z = Some j \<Longrightarrow> j < n \<and> (\<exists>args. env_pcs t j = Making z args)"
        using D(3) [of z j] g [of z j] constructs(3) by (auto split: if_splits)
      show "env_pcs t j = Making z as \<Longrightarrow> guards t z = Some j \<and> instance_of (shared t) z = None" for as
        using D(4) [of j z as] m [of j z as] constructs(3) h by (auto split: if_splits)
      show "arguments (env_pcs t j) z = Some b \<Longrightarrow> instance_of (shared t) z = Some b" for b
        using args [of z b] others [of j z b] constructs(3) by (auto split: if_splits)
    qed (use ok md st constructs(3) in simp_all)
  next
    case (fails y args e h)
    have h: "h = shared s" by (rule getDefault_threw [OF fails(2)])
    have g: "guards s z = Some j \<Longrightarrow> z \<noteq> y \<Longrightarrow> j \<noteq> i" for z j
      using D(3) [of z j] fails(1) by auto
    have m: "env_pcs s j = Making z as \<Longrightarrow> j \<noteq> i \<Longrightarrow> z \<noteq> y" for j z as
      using D(4) [of j z as] D(4) [OF fails(1)] by auto
    show ?thesis
    proof (rule env_threads_invI)
      fix z j
      show "guards t z = Some j \<Longrightarrow> j < n \<and> (\<exists>args. env_pcs t j = Making z args)"
        using D(3) [of z j] g [of z j] fails(3) by (auto split: if_splits)
      show "env_pcs t j = Making z as \<Longrightarrow> guards t z = Some j \<and> instance_of (shared t) z = None" for as
        using D(4) [of j z as] m [of j z as] fails(3) h by (auto split: if_splits)
      show "arguments (env_pcs t j) z = Some b \<Longrightarrow> instance_of (shared t) z = Some b" for b
        using D(5) [of j z b] fails(3) h by (auto split: if_splits)
    qed (use D fails(3) h in simp_all)
  qed
qed

text \<open>Progress: a step lowers the weight of its thread and touches no other.\<close>

lemma env_step_weight:
  assumes inv: "env_threads_inv n h0 s" and st: "env_step F x i s = Some t"
  shows "env_pc_weight (env_pcs t i) < env_pc_weight (env_pcs s i) \<and> (\<forall>j. j \<noteq> i \<longrightarrow> env_pcs t j = env_pcs s j)"
  using st
proof (cases rule: env_step_cases)
  case (found args a)
  then show ?thesis using missing_upd [of args x a] by simp
next
  case (constructs y args a h)
  have "args y = None"
    using env_threads_invD(4) [OF inv constructs(1)] env_threads_invD(5) [OF inv, of i y] constructs(1)
    by (cases "args y") auto
  with constructs show ?thesis using missing_upd [of args y a] by simp
next
  case (fails y args e h)
  have "args y = None"
    using env_threads_invD(4) [OF inv fails(1)] env_threads_invD(5) [OF inv, of i y] fails(1)
    by (cases "args y") auto
  then have "missing args \<noteq> {}" by (auto simp: missing_def)
  then have "0 < card (missing args)" by (simp add: card_gt_0_iff)
  with fails show ?thesis by simp
qed auto

lemma env_threads_step_weight:
  assumes inv: "env_threads_inv n h0 s" and st: "env_threads_step n s t"
  shows "env_weight n t < env_weight n s"
  using st
proof (rule env_threads_stepE)
  fix i F x assume i: "i < n" and s: "env_step F x i s = Some t"
  note w = env_step_weight [OF inv s]
  have "(\<Sum>j \<in> {..<n} - {i}. env_pc_weight (env_pcs t j)) = (\<Sum>j \<in> {..<n} - {i}. env_pc_weight (env_pcs s j))"
    using w by (intro sum.cong) auto
  then show ?thesis
    using i w sum.remove [of "{..<n}" i "\<lambda>j. env_pc_weight (env_pcs t j)"]
      sum.remove [of "{..<n}" i "\<lambda>j. env_pc_weight (env_pcs s j)"]
    by (simp add: env_weight_def)
qed

interpretation statics: terminating_system "env_threads_init h" "env_threads_step n" "env_threads_inv n h" "env_weight n"
  for h n
proof unfold_locales
  fix s :: "'a env_threads" assume "env_threads_init h s"
  then show "env_threads_inv n h s" by (rule env_threads_init_inv)
next
  fix s t :: "'a env_threads" assume "env_threads_inv n h s" "env_threads_step n s t"
  then show "env_threads_inv n h t" by (elim env_threads_stepE) (rule env_step_inv)
qed (rule env_threads_step_weight)

text \<open>
  No deadlock: a thread that waits waits for one that constructs, which waits for nobody, since a
  thread holds one guard at a time. So a state without a step has only finished threads.
\<close>

lemma env_making_moves:
  assumes "env_pcs s j = Making x args"
  shows "\<exists>t. env_step F x j s = Some t"
proof -
  obtain r h where "getDefault F x (shared s) = (r, h)" by fastforce
  with assms show ?thesis by (cases r) (auto simp: env_step_def)
qed

lemma env_thread_progress:
  assumes inv: "env_threads_inv n h0 s" and i: "i < n" and nf: "\<not> env_finished (env_pcs s i)"
  shows "\<exists>j F x t. j < n \<and> env_step F x j s = Some t \<and> (j = i \<or> (\<exists>y args. env_pcs s j = Making y args))"
proof (cases "env_pcs s i")
  case (Evaluating args)
  show ?thesis
  proof (cases "assemble args")
    case (Some e)
    with Evaluating i show ?thesis by (intro exI [of _ i]) (auto simp: env_step_def)
  next
    case None
    then obtain x where x: "args x = None" by (auto simp: assemble_None missing_def)
    show ?thesis
    proof (cases "instance_of (shared s) x = None \<and> guards s x \<noteq> None")
      case True
      then obtain j where "guards s x = Some j" by blast
      with env_threads_invD(3) [OF inv this] env_making_moves show ?thesis by blast
    next
      case False
      then have "\<exists>t. env_step undefined x i s = Some t"
        using Evaluating None x by (auto simp: env_step_def split: option.split)
      with i show ?thesis by blast
    qed
  qed
next
  case (Making x args)
  with env_making_moves i show ?thesis by blast
qed (use nf in \<open>simp_all add: env_finished_def\<close>)

lemma env_thread_moves:
  assumes inv: "env_threads_inv n h0 s" and i: "i < n" and nf: "\<not> env_finished (env_pcs s i)"
  shows "\<exists>t. env_threads_step n s t"
  using env_thread_progress [OF assms] by (blast intro: env_threads_step.intros)

lemma env_finished_stuck: "(\<forall>i<n. env_finished (env_pcs s i)) \<Longrightarrow> \<not> env_threads_step n s t"
  by (auto simp: env_finished_def env_step_def elim!: env_threads_stepE)

lemma env_weight_init: "env_threads_init h s \<Longrightarrow> env_weight n s = 7 * n"
proof -
  assume "env_threads_init h s"
  then have "env_pc_weight (env_pcs s i) = 7" for i
    by (simp add: env_threads_init_def missing_def static_UNIV)
  then show ?thesis by (simp add: env_weight_def)
qed

text \<open>The environments of the threads are made of the instances, so they are the same.\<close>

lemma env_threads_instances:
  assumes inv: "env_threads_inv n h s" and e: "env_pcs s i = Env e"
  shows "default_authority (shared s) = Some (certAuth e) \<and> default_certificates (shared s) = Some (certStore e)
     \<and> default_keys (shared s) = Some (keyStore e) \<and> env_ok (shared s) e"
proof -
  note D = env_threads_invD [OF inv]
  have "default_authority (shared s) = Some (certAuth e)" "default_certificates (shared s) = Some (certStore e)"
    "default_keys (shared s) = Some (keyStore e)"
    using D(5) [of i Authority_Instance] D(5) [of i Certificates_Instance] D(5) [of i Keys_Instance] e
    by simp_all
  with D(1) show ?thesis by (simp add: heap_ok_def env_ok_def)
qed

lemma env_threads_agree:
  assumes inv: "env_threads_inv n h s" and "env_pcs s i = Env e" "env_pcs s j = Env e'"
  shows "e = e'"
  using env_threads_instances [OF inv assms(2)] env_threads_instances [OF inv assms(3)]
  by (cases e; cases e') simp

section \<open>One thread alone\<close>

text \<open>The steps of thread \<open>i\<close>.\<close>

inductive env_moves :: "nat \<Rightarrow> 'u env_threads \<Rightarrow> 'u env_threads \<Rightarrow> bool" for i where
  "env_step F x i s = Some t \<Longrightarrow> env_moves i s t"

lemma env_moves_run: "(env_moves i)\<^sup>*\<^sup>* s t \<Longrightarrow> i < n \<Longrightarrow> (env_threads_step n)\<^sup>*\<^sup>* s t"
  by (induction rule: rtranclp_induct)
    (auto elim!: env_moves.cases intro: rtranclp.rtrancl_into_rtrancl env_threads_step.intros)

text \<open>Without other threads the steps of an argument are the call of its \<open>getDefault\<close>.\<close>

lemma solo_argument:
  assumes ev: "env_pcs s i = Evaluating args" and x: "args x = None"
    and g: "guards s = (\<lambda>_. None)" and d: "getDefault F x (shared s) = (r, h)"
  shows "\<exists>t. (env_moves i)\<^sup>*\<^sup>* s t \<and> guards t = (\<lambda>_. None) \<and> shared t = h
     \<and> env_pcs t i = (case r of Inl e \<Rightarrow> Env_Threw e | Inr a \<Rightarrow> Evaluating (args(x \<mapsto> a)))
     \<and> (\<forall>j. j \<noteq> i \<longrightarrow> env_pcs t j = env_pcs s j)"
proof -
  have as: "assemble args = None" using x by (auto simp: assemble_None missing_def)
  show ?thesis
  proof (cases "instance_of (shared s) x")
    case (Some a)
    then have "r = Inr a" "h = shared s"
      using d by (cases x; auto simp: authority_getDefault_def certificates_getDefault_def keys_getDefault_def)+
    moreover have "env_moves i s (set_pc i (Evaluating (args(x \<mapsto> a))) s)"
      using ev x as Some by (intro env_moves.intros [of F x i]) (simp_all add: env_step_def)
    ultimately show ?thesis
      using g by (intro exI [of _ "set_pc i (Evaluating (args(x \<mapsto> a))) s"]) auto
  next
    case None
    let ?s1 = "set_pc i (Making x args) (set_guard x (Some i) s)"
    have 1: "env_moves i s ?s1"
      using ev x as None g by (intro env_moves.intros [of F x i]) (simp_all add: env_step_def)
    obtain t where t: "env_step F x i ?s1 = Some t" and tt: "guards t = (\<lambda>_. None)" "shared t = h"
        "env_pcs t i = (case r of Inl e \<Rightarrow> Env_Threw e | Inr a \<Rightarrow> Evaluating (args(x \<mapsto> a)))"
        "\<forall>j. j \<noteq> i \<longrightarrow> env_pcs t j = env_pcs s j"
      using d g by (cases r) (simp_all add: env_step_def fun_upd_idem)
    from t have "env_moves i ?s1 t" by (rule env_moves.intros)
    with 1 tt show ?thesis by (blast intro: converse_rtranclp_into_rtranclp)
  qed
qed

text \<open>In the order of the sequential constructor, whichever it is, the thread does what that constructor does.\<close>

lemma solo_argument_list:
  "env_pcs s i = Evaluating args \<Longrightarrow> guards s = (\<lambda>_. None) \<Longrightarrow> distinct xs \<Longrightarrow> \<forall>x \<in> set xs. args x = None \<Longrightarrow>
     eval_arguments F (passed None None None) xs args (shared s) = (r, h) \<Longrightarrow>
     \<exists>t. (env_moves i)\<^sup>*\<^sup>* s t \<and> guards t = (\<lambda>_. None) \<and> shared t = h
       \<and> env_pcs t i = (case r of Inl e \<Rightarrow> Env_Threw e | Inr args' \<Rightarrow> Evaluating args')
       \<and> (\<forall>j. j \<noteq> i \<longrightarrow> env_pcs t j = env_pcs s j)"
proof (induction xs arbitrary: s args)
  case Nil
  then show ?case by (intro exI [of _ s]) auto
next
  case (Cons x xs)
  have given: "passed None None None x = None" by (cases x) simp_all
  obtain q h1 where q: "getDefault F x (shared s) = (q, h1)" by fastforce
  from solo_argument [OF Cons.prems(1) _ Cons.prems(2) q] Cons.prems(4)
  obtain t1 where t1: "(env_moves i)\<^sup>*\<^sup>* s t1" "guards t1 = (\<lambda>_. None)" "shared t1 = h1"
      "env_pcs t1 i = (case q of Inl e \<Rightarrow> Env_Threw e | Inr a \<Rightarrow> Evaluating (args(x \<mapsto> a)))"
      "\<forall>j. j \<noteq> i \<longrightarrow> env_pcs t1 j = env_pcs s j"
    by auto
  show ?case
  proof (cases q)
    case (Inl e)
    with q given Cons.prems(5) have "r = Inl e" "h = h1" by auto
    with t1 Inl show ?thesis by auto
  next
    case (Inr a)
    have ev: "eval_arguments F (passed None None None) xs (args(x \<mapsto> a)) (shared t1) = (r, h)"
      using q given Inr Cons.prems(5) t1(3) by simp
    have none: "\<forall>y \<in> set xs. (args(x \<mapsto> a)) y = None" and d: "distinct xs" using Cons.prems(3,4) by auto
    have pc: "env_pcs t1 i = Evaluating (args(x \<mapsto> a))" using t1(4) Inr by simp
    from Cons.IH [OF pc t1(2) d none ev] obtain t where "(env_moves i)\<^sup>*\<^sup>* t1 t" "guards t = (\<lambda>_. None)" "shared t = h"
        "env_pcs t i = (case r of Inl e \<Rightarrow> Env_Threw e | Inr args' \<Rightarrow> Evaluating args')"
        "\<forall>j. j \<noteq> i \<longrightarrow> env_pcs t j = env_pcs t1 j"
      by blast
    with t1(1,5) rtranclp_trans [of "env_moves i" s t1 t] show ?thesis by (intro exI [of _ t]) auto
  qed
qed

theorem solo_environment:
  assumes ev: "env_pcs s i = Evaluating Map.empty" and g: "guards s = (\<lambda>_. None)"
    and mk: "mk_PKIEnvironment F ord None None None (shared s) = (r, h)"
  shows "\<exists>t. (env_moves i)\<^sup>*\<^sup>* s t \<and> guards t = (\<lambda>_. None) \<and> shared t = h
     \<and> env_pcs t i = (case r of Inl e \<Rightarrow> Env_Threw e | Inr e \<Rightarrow> Env e)
     \<and> (\<forall>j. j \<noteq> i \<longrightarrow> env_pcs t j = env_pcs s j)"
proof -
  obtain q h1 where q: "eval_arguments F (passed None None None) (order_of ord) Map.empty (shared s) = (q, h1)"
    by fastforce
  from solo_argument_list [OF ev g distinct_order_of _ q]
  obtain t where t: "(env_moves i)\<^sup>*\<^sup>* s t" "guards t = (\<lambda>_. None)" "shared t = h1"
      "env_pcs t i = (case q of Inl e \<Rightarrow> Env_Threw e | Inr args \<Rightarrow> Evaluating args)"
      "\<forall>j. j \<noteq> i \<longrightarrow> env_pcs t j = env_pcs s j"
    by auto
  show ?thesis
  proof (cases q)
    case (Inl e)
    with mk q have "r = Inl e" "h = h1" by (auto simp: mk_PKIEnvironment_def)
    with t Inl show ?thesis by auto
  next
    case (Inr args)
    have "dom args = UNIV" using eval_arguments_dom [OF q [unfolded Inr]] by (simp add: set_order_of)
    then obtain e where e: "assemble args = Some e" using assemble_total by blast
    with mk q Inr have r: "r = Inr e" "h = h1" by (auto simp: mk_PKIEnvironment_def)
    have "env_moves i t (set_pc i (Env e) t)"
      using t(4) Inr e by (intro env_moves.intros [of F undefined i]) (simp_all add: env_step_def)
    with t r show ?thesis by (intro exI [of _ "set_pc i (Env e) t"]) auto
  qed
qed

section \<open>A sample run\<close>

definition sample_env_start :: "nat env_threads" where
  "sample_env_start = \<lparr>env_pcs = \<lambda>_. Evaluating Map.empty, guards = \<lambda>_. None, shared = empty_heap, made = []\<rparr>"

lemma sample_env_start_init: "env_threads_init empty_heap sample_env_start"
  by (simp add: env_threads_init_def sample_env_start_def heap_ok_empty)

text \<open>Two threads, one after the other; the second finds the instances of the first.\<close>

lemma sample_two_threads:
  "\<exists>s e e'. reachable (env_threads_init (empty_heap :: nat heap)) (env_threads_step 2) s
     \<and> env_pcs s 0 = Env e \<and> env_pcs s 1 = Env e'"
proof -
  let ?init = "env_threads_init (empty_heap :: nat heap)" and ?step = "env_threads_step 2"
  have r0: "reachable ?init ?step sample_env_start"
    by (rule reachable_init) (rule sample_env_start_init)
  obtain e and h :: "nat heap" where mk: "mk_PKIEnvironment sample_fs Order_ACK None None None empty_heap = (Inr e, h)"
    using sample_first_mk by blast
  obtain t where t: "(env_moves 0)\<^sup>*\<^sup>* sample_env_start t" "guards t = (\<lambda>_. None)" "env_pcs t 0 = Env e" "env_pcs t 1 = Evaluating Map.empty"
    using solo_environment [of sample_env_start 0 sample_fs Order_ACK "Inr e" h] mk by (auto simp: sample_env_start_def)
  note r1 = reachable_run [OF env_moves_run [OF t(1), of 2] r0, simplified]
  note D = env_threads_invD(5) [OF statics.inv_reachable [OF r1], of 0]
  have "mk_PKIEnvironment sample_fs Order_KCA None None None (shared t) = (Inr e, shared t)"
    using D [of Authority_Instance] D [of Certificates_Instance] D [of Keys_Instance] t(3)
    by (simp add: mk_PKIEnvironment_def assemble_def authority_getDefault_def certificates_getDefault_def keys_getDefault_def)
  from solo_environment [OF t(4) t(2) this] t(3)
  obtain u where u: "(env_moves 1)\<^sup>*\<^sup>* t u" "env_pcs u 0 = Env e" "env_pcs u 1 = Env e" by auto
  with reachable_run [OF env_moves_run [OF u(1), of 2] r1] show ?thesis by (intro exI [of _ u]) auto
qed

section \<open>Properties\<close>

text \<open>C13: however many threads construct environments with default arguments, in whatever order the
  arguments are evaluated, however the threads interleave and the file system changes, and
  whichever constructors throw: each static instance is made at most once, and not when it was there
  before; all environments that are returned are the same, refer to the instances, and what they
  refer to exists.\<close>

theorem default_instances_made_once:
  assumes "reachable (env_threads_init h) (env_threads_step n) s"
  shows "distinct (made s) \<and> (\<forall>x \<in> set (made s). instance_of h x = None)
     \<and> (\<forall>i j e e'. env_pcs s i = Env e \<and> env_pcs s j = Env e' \<longrightarrow> e = e')
     \<and> (\<forall>i e. env_pcs s i = Env e \<longrightarrow> default_authority (shared s) = Some (certAuth e)
          \<and> default_certificates (shared s) = Some (certStore e) \<and> default_keys (shared s) = Some (keyStore e)
          \<and> env_ok (shared s) e)"
proof -
  have inv: "env_threads_inv n h s" by (rule statics.inv_reachable [OF assms])
  from env_threads_instances [OF inv] env_threads_agree [OF inv] env_threads_invD(7,8) [OF inv] show ?thesis by blast
qed

theorem default_instances_made_once_witness:
  "\<exists>(s :: nat env_threads) e. env_pcs s 0 = Env e \<and> env_pcs s 1 = Env e \<and> distinct (made s) \<and> env_ok (shared s) e"
proof -
  obtain s :: "nat env_threads" and e e' where r: "reachable (env_threads_init empty_heap) (env_threads_step 2) s"
    and "env_pcs s 0 = Env e" "env_pcs s 1 = Env e'" using sample_two_threads by blast
  with default_instances_made_once [OF r] show ?thesis by blast
qed

text \<open>C19: the threads cannot wait for each other for ever: a run takes at most seven steps per thread,
  and from every state that is reached, also after constructors have thrown under a lock, it can be
  continued to one in which every thread has returned an environment or thrown; a state without a step is
  such a state.\<close>

theorem default_instances_terminate:
  assumes "env_threads_init h s0" and "(env_threads_step n ^^ k) s0 s"
  shows "k \<le> 7 * n
     \<and> (\<exists>t. (env_threads_step n)\<^sup>*\<^sup>* s t \<and> (\<forall>i<n. env_finished (env_pcs t i)))
     \<and> ((\<nexists>t. env_threads_step n s t) \<longleftrightarrow> (\<forall>i<n. env_finished (env_pcs s i)))"
proof -
  have inv0: "env_threads_inv n h s0" by (rule statics.inv_init [OF assms(1)])
  have inv: "env_threads_inv n h s" by (rule statics.inv_run [OF relpowp_imp_rtranclp [OF assms(2)] inv0])
  have k: "k \<le> 7 * n"
    using statics.run_bound [OF assms(2) inv0] env_weight_init [OF assms(1), of n] by simp
  obtain t where t: "(env_threads_step n)\<^sup>*\<^sup>* s t" "\<forall>u. \<not> env_threads_step n t u"
    using statics.run_completes [OF inv] by blast
  with env_thread_moves [OF statics.inv_run [OF t(1) inv]]
  have "\<forall>i<n. env_finished (env_pcs t i)" by blast
  with k t(1) env_thread_moves [OF inv] env_finished_stuck [of n s] show ?thesis by blast
qed

theorem default_instances_terminate_witness:
  "\<exists>t. (env_threads_step 3)\<^sup>*\<^sup>* sample_env_start t \<and> (\<forall>i<3. env_finished (env_pcs t i))"
proof -
  have "(env_threads_step 3 ^^ 0) sample_env_start sample_env_start" by simp
  from default_instances_terminate [OF sample_env_start_init this] show ?thesis by blast
qed

end
