(* ===== verification/Iggy_DefaultThreads.thy ===== *)
theory Iggy_DefaultThreads
  imports Iggy_Threads Iggy_Statics Iggy_Lifetime
begin

text \<open>
  Several threads that construct an \<open>SSLContext\<close> with its default arguments
  (\<^verbatim>\<open>sdk/net/crypto/ssl.h\<close>), the composition of \<open>Iggy_Statics\<close> and
  \<open>Iggy_Threads\<close>. A thread evaluates the two arguments in either order, the one of type
  \<open>PKIEnvironment\<close> by way of the static instances, then runs the constructor by way of
  \<open>std::call_once\<close>, and destroys its context. So two kinds of locks are taken, one after the other.
  The temporaries have addresses of their own in each thread; that they are gone when the constructor
  has returned, and the members of the context dangle, is the subject of \<open>Iggy_Lifetime\<close>.
\<close>

section \<open>One thread\<close>

text \<open>What a thread does next: it evaluates the options, goes on with the environment, or with the constructor.\<close>

datatype move = Evaluate_Options | Evaluate_Environment filesystem static_var | Run_Constructor

text \<open>The outcome of \<open>SSLOptions<HandleType>()\<close> in each thread, and the states of the two parts.\<close>

record 'u default_threads =
  dt_options :: "nat \<Rightarrow> SSLOptions result option"
  dt_env :: "'u env_threads"
  dt_ssl :: threads

text \<open>The constructor call of thread \<open>i\<close>, with the addresses of its two temporaries.\<close>

definition default_job :: "(nat \<Rightarrow> addr \<times> addr) \<Rightarrow> SSLOptions \<Rightarrow> nat \<Rightarrow> job" where
  "default_job refs opts i = \<lparr>job_options = opts, job_optionsRef = fst (refs i), job_pkiEnvRef = snd (refs i)\<rparr>"

text \<open>The calls of all threads, whose options are the same if they are made at all.\<close>

abbreviation default_jobs :: "wolfssl_build \<Rightarrow> (nat \<Rightarrow> addr \<times> addr) \<Rightarrow> nat \<Rightarrow> job" where
  "default_jobs B refs \<equiv> default_job refs (projr (mk_SSLOptions B CLIENT))"

text \<open>Between two arguments: the environment has not been begun, or is there.\<close>

fun between_arguments :: "env_pc \<Rightarrow> bool" where
  "between_arguments (Evaluating args) \<longleftrightarrow>
     args Authority_Instance = None \<and> args Certificates_Instance = None \<and> args Keys_Instance = None"
| "between_arguments (Making x args) \<longleftrightarrow> False"
| "between_arguments (Env e) \<longleftrightarrow> True"
| "between_arguments (Env_Threw e) \<longleftrightarrow> False"

text \<open>
  The evaluations of the arguments do not overlap: the options are evaluated before the environment is
  begun or when it is there, and after an exception nothing more is done.
\<close>

fun default_step ::
  "wolfssl \<Rightarrow> wolfssl_build \<Rightarrow> (nat \<Rightarrow> addr \<times> addr) \<Rightarrow> move \<Rightarrow> nat \<Rightarrow> 'u default_threads \<Rightarrow> 'u default_threads option"
where
  "default_step W B refs Evaluate_Options i s =
     (if dt_options s i \<noteq> None then None
      else if between_arguments (env_pcs (dt_env s) i)
      then Some (s\<lparr>dt_options := (dt_options s)(i \<mapsto> mk_SSLOptions B CLIENT)\<rparr>)
      else None)"
| "default_step W B refs (Evaluate_Environment F x) i s = (case dt_options s i of
     Some (Inl _) \<Rightarrow> None
   | _ \<Rightarrow> map_option (\<lambda>t. s\<lparr>dt_env := t\<rparr>) (env_step F x i (dt_env s)))"
| "default_step W B refs Run_Constructor i s = (case (dt_options s i, env_pcs (dt_env s) i) of
     (Some (Inr opts), Env _) \<Rightarrow>
       map_option (\<lambda>t. s\<lparr>dt_ssl := t\<rparr>) (thread_step W (default_job refs opts) i (dt_ssl s))
   | _ \<Rightarrow> None)"

text \<open>What has become of \<open>SSLContext()\<close> in a thread, once it has returned or thrown.\<close>

definition outcome :: "'u default_threads \<Rightarrow> nat \<Rightarrow> SSLContext result option" where
  "outcome s i = (case dt_options s i of
     Some (Inl e) \<Rightarrow> Some (Inl e)
   | _ \<Rightarrow> (case env_pcs (dt_env s) i of
       Env_Threw e \<Rightarrow> Some (Inl e)
     | _ \<Rightarrow> (case pcs (dt_ssl s) i of
         Threw e \<Rightarrow> Some (Inl e)
       | Constructed x \<Rightarrow> Some (Inr x)
       | _ \<Rightarrow> None)))"

text \<open>A thread has finished when an argument or the constructor threw, or it has destroyed its context.\<close>

definition default_finished :: "'u default_threads \<Rightarrow> nat \<Rightarrow> bool" where
  "default_finished s i \<longleftrightarrow> (\<exists>e. outcome s i = Some (Inl e)) \<or> pcs (dt_ssl s) i = Destroyed"

section \<open>All threads\<close>

definition default_threads_init :: "'u heap \<Rightarrow> 'u default_threads \<Rightarrow> bool" where
  "default_threads_init h s \<longleftrightarrow>
     dt_options s = Map.empty \<and> env_threads_init h (dt_env s) \<and> threads_init (dt_ssl s)"

inductive default_threads_step ::
  "wolfssl \<Rightarrow> wolfssl_build \<Rightarrow> (nat \<Rightarrow> addr \<times> addr) \<Rightarrow> nat \<Rightarrow> 'u default_threads \<Rightarrow> 'u default_threads \<Rightarrow> bool"
  for W B refs n where
  "i < n \<Longrightarrow> default_step W B refs m i s = Some t \<Longrightarrow> default_threads_step W B refs n s t"

inductive_cases default_threads_stepE: "default_threads_step W B refs n s t"

definition default_weight :: "nat \<Rightarrow> 'u default_threads \<Rightarrow> nat" where
  "default_weight n s = card {i. i < n \<and> dt_options s i = None} + env_weight n (dt_env s) + threads_weight n (dt_ssl s)"

text \<open>
  The invariant: that of each part, and how a thread goes from one to the other. It is in the
  constructor only with both arguments; it constructs no static instance once its options threw.
\<close>

definition default_inv ::
  "wolfssl \<Rightarrow> wolfssl_build \<Rightarrow> (nat \<Rightarrow> addr \<times> addr) \<Rightarrow> nat \<Rightarrow> 'u heap \<Rightarrow> 'u default_threads \<Rightarrow> bool"
where
  "default_inv W B refs n h s \<longleftrightarrow> env_threads_inv n h (dt_env s)
     \<and> (allocator_fresh W \<longrightarrow> threads_inv W (default_jobs B refs) n (dt_ssl s))
     \<and> (\<forall>i r. dt_options s i = Some r \<longrightarrow> r = mk_SSLOptions B CLIENT)
     \<and> (\<forall>i. pcs (dt_ssl s) i \<noteq> At_Once \<longrightarrow>
          (\<exists>opts e. dt_options s i = Some (Inr opts) \<and> env_pcs (dt_env s) i = Env e))
     \<and> (\<forall>i e x args. dt_options s i = Some (Inl e) \<longrightarrow> env_pcs (dt_env s) i \<noteq> Making x args)"

section \<open>Lemmas\<close>

lemma default_step_cases:
  assumes "default_step W B refs m i s = Some t"
  obtains (options) "dt_options s i = None" "between_arguments (env_pcs (dt_env s) i)"
      "t = s\<lparr>dt_options := (dt_options s)(i \<mapsto> mk_SSLOptions B CLIENT)\<rparr>"
  | (environment) F x u where "\<nexists>e. dt_options s i = Some (Inl e)" "env_step F x i (dt_env s) = Some u" "t = s\<lparr>dt_env := u\<rparr>"
  | (constructor) opts e u where "dt_options s i = Some (Inr opts)" "env_pcs (dt_env s) i = Env e"
      "thread_step W (default_job refs opts) i (dt_ssl s) = Some u" "t = s\<lparr>dt_ssl := u\<rparr>"
  using assms by (cases m) (auto split: if_splits option.splits sum.splits env_pc.splits)

lemma default_invD:
  assumes "default_inv W B refs n h s"
  shows "env_threads_inv n h (dt_env s)"
    and "allocator_fresh W \<Longrightarrow> threads_inv W (default_jobs B refs) n (dt_ssl s)"
    and "dt_options s i = Some r \<Longrightarrow> r = mk_SSLOptions B CLIENT"
    and "pcs (dt_ssl s) i \<noteq> At_Once \<Longrightarrow> \<exists>opts e. dt_options s i = Some (Inr opts) \<and> env_pcs (dt_env s) i = Env e"
    and "dt_options s i = Some (Inl e) \<Longrightarrow> env_pcs (dt_env s) i \<noteq> Making x args"
  using assms unfolding default_inv_def by blast+

text \<open>An environment that is there stays: its thread makes no step of that part.\<close>

lemma env_step_keeps:
  "env_step F x i s = Some t \<Longrightarrow> env_pcs s j = Env e \<Longrightarrow> env_pcs t j = Env e"
  by (cases "j = i") (auto elim!: env_step_cases)

lemma env_step_other: "env_step F x i s = Some t \<Longrightarrow> j \<noteq> i \<Longrightarrow> env_pcs t j = env_pcs s j"
  by (auto elim!: env_step_cases)

lemma thread_step_moves: "thread_step W jobs i s = Some t \<Longrightarrow> j \<noteq> i \<Longrightarrow> pcs t j = pcs s j"
  using thread_step_weight by blast

lemma default_step_inv:
  assumes inv: "default_inv W B refs n h s" and i: "i < n" and st: "default_step W B refs m i s = Some t"
  shows "default_inv W B refs n h t"
proof -
  note D = default_invD [OF inv]
  from st show ?thesis
  proof (cases rule: default_step_cases)
    case options
    with D(4) have "pcs (dt_ssl s) i = At_Once" by force
    with options inv show ?thesis by (auto simp: default_inv_def)
  next
    case (environment F x u)
    have "env_threads_inv n h u" by (rule env_step_inv [OF D(1) i environment(2)])
    moreover have "env_pcs u j \<noteq> Making y args" if "dt_options s j = Some (Inl e)" for j e y args
      using D(5) [OF that] env_step_other [OF environment(2), of j] environment(1) that by (cases "j = i") auto
    moreover have "\<exists>opts e. dt_options s j = Some (Inr opts) \<and> env_pcs u j = Env e" if "pcs (dt_ssl s) j \<noteq> At_Once" for j
      using D(4) [OF that] env_step_keeps [OF environment(2)] by blast
    ultimately show ?thesis using D(2,3) environment(3) by (simp add: default_inv_def)
  next
    case (constructor opts e u)
    have "mk_SSLOptions B CLIENT = Inr opts" using D(3) [OF constructor(1)] by simp
    with constructor(3) have "allocator_fresh W \<Longrightarrow> threads_inv W (default_jobs B refs) n u"
      using thread_step_inv [OF _ _ i D(2)] by simp
    moreover have "\<exists>opts e. dt_options s j = Some (Inr opts) \<and> env_pcs (dt_env s) j = Env e" if "pcs u j \<noteq> At_Once" for j
      using D(4) [of j] thread_step_moves [OF constructor(3), of j] constructor(1,2) that by (cases "j = i") auto
    ultimately show ?thesis using D(1,3,5) constructor(4) by (simp add: default_inv_def)
  qed
qed

lemma default_inv_init: "default_threads_init h s \<Longrightarrow> default_inv W B refs n h s"
  using env_threads_init_inv threads_inv_init
  by (auto simp: default_threads_init_def default_inv_def env_threads_init_def threads_init_def)

lemma default_step_weight:
  assumes inv: "default_inv W B refs n h s" and i: "i < n" and st: "default_step W B refs m i s = Some t"
  shows "default_weight n t < default_weight n s"
  using st
proof (cases rule: default_step_cases)
  case options
  then have "{j. j < n \<and> dt_options s j = None} = insert i {j. j < n \<and> dt_options t j = None}"
      "i \<notin> {j. j < n \<and> dt_options t j = None}"
    using i by auto
  then show ?thesis using options(3) by (simp add: default_weight_def)
next
  case (environment F x u)
  from i environment(2) have "env_threads_step n (dt_env s) u" by (rule env_threads_step.intros)
  from env_threads_step_weight [OF default_invD(1) [OF inv] this] environment(3)
  show ?thesis by (simp add: default_weight_def)
next
  case (constructor opts e u)
  from i constructor(3) have "threads_step W (default_job refs opts) n (dt_ssl s) u" by (rule threads_step.intros)
  from threads_step_weight [OF this] constructor(4) show ?thesis by (simp add: default_weight_def)
qed

interpretation defaults: terminating_system "default_threads_init h" "default_threads_step W B refs n"
  "default_inv W B refs n h" "default_weight n" for h W B refs n
  by unfold_locales (auto intro: default_inv_init default_step_inv default_step_weight elim!: default_threads_stepE)

text \<open>Each part alone.\<close>

interpretation defaults_env: simulation "default_threads_init h" "default_threads_step W B refs n" "default_inv W B refs n h"
  "env_threads_init h" "env_threads_step n" dt_env for h W B refs n
proof unfold_locales
  fix s t :: "'a default_threads" assume "default_threads_step W B refs n s t"
  then show "dt_env t = dt_env s \<or> env_threads_step n (dt_env s) (dt_env t)"
    by (elim default_threads_stepE default_step_cases) (auto intro: env_threads_step.intros)
qed (simp add: default_threads_init_def)

interpretation defaults_ssl: simulation "default_threads_init h" "default_threads_step W B refs n" "default_inv W B refs n h"
  threads_init "threads_step W (default_jobs B refs) n" dt_ssl for h W B refs n
proof unfold_locales
  fix s t :: "'a default_threads"
  assume inv: "default_inv W B refs n h s" and "default_threads_step W B refs n s t"
  from this(2) show "dt_ssl t = dt_ssl s \<or> threads_step W (default_jobs B refs) n (dt_ssl s) (dt_ssl t)"
  proof (elim default_threads_stepE default_step_cases)
    fix i opts u
    assume "i < n" "dt_options s i = Some (Inr opts)" "thread_step W (default_job refs opts) i (dt_ssl s) = Some u"
      and t: "t = s\<lparr>dt_ssl := u\<rparr>"
    moreover from this have "mk_SSLOptions B CLIENT = Inr opts" using default_invD(3) [OF inv, of i] by simp
    ultimately show ?thesis by (auto intro: threads_step.intros)
  qed simp_all
qed (simp add: default_threads_init_def)

section \<open>Progress\<close>

text \<open>
  The locks are not nested: a thread that holds a guard is not yet at \<open>call_once\<close>, and one inside
  \<open>call_once\<close> holds no guard. Whoever another thread waits for can therefore move.
\<close>

lemma default_call_moves:
  assumes inv: "default_inv W B refs n h s" and fr: "allocator_fresh W" and i: "i < n"
    and o: "dt_options s i = Some (Inr opts)" and e: "env_pcs (dt_env s) i = Env e" and nf: "\<not> finished (pcs (dt_ssl s) i)"
  shows "\<exists>t. default_threads_step W B refs n s t"
proof -
  note D = default_invD [OF inv]
  have move: "\<exists>t. default_threads_step W B refs n s t"
    if "j < n" "dt_options s j = Some (Inr opts')" "env_pcs (dt_env s) j = Env e'"
      and st: "thread_step W (default_job refs opts') j (dt_ssl s) = Some u" for j opts' e' u
  proof -
    have "default_step W B refs Run_Constructor j s = Some (s\<lparr>dt_ssl := u\<rparr>)" using that by simp
    with that(1) show ?thesis by (blast intro: default_threads_step.intros)
  qed
  show ?thesis
  proof (cases "thread_step W (default_job refs opts) i (dt_ssl s)")
    case None
    with nf obtain k where "once (dt_ssl s) = In_Progress k" by (auto simp: thread_step_None)
    with D(2) [OF fr] have k: "k < n" "pcs (dt_ssl s) k = In_Init \<or> pcs (dt_ssl s) k = After_Init"
      by (auto simp: threads_inv_def once_ok_def)
    then obtain opts' e' where "dt_options s k = Some (Inr opts')" "env_pcs (dt_env s) k = Env e'"
      using D(4) [of k] by auto
    moreover have "\<exists>u. thread_step W (default_job refs opts') k (dt_ssl s) = Some u"
      using k(2) by (auto simp: thread_step_def)
    ultimately show ?thesis using move k(1) by blast
  qed (use move [OF i o e] in blast)
qed

lemma default_progress:
  assumes inv: "default_inv W B refs n h s" and fr: "allocator_fresh W" and i: "i < n" and nf: "\<not> default_finished s i"
  shows "\<exists>t. default_threads_step W B refs n s t"
proof -
  note D = default_invD [OF inv]
  have o: "\<nexists>e. dt_options s i = Some (Inl e)" using nf by (auto simp: default_finished_def outcome_def)
  show ?thesis
  proof (cases "env_finished (env_pcs (dt_env s) i)")
    case False
    obtain j F x u where j: "j < n" "env_step F x j (dt_env s) = Some u"
      and who: "j = i \<or> (\<exists>y args. env_pcs (dt_env s) j = Making y args)"
      using env_thread_progress [OF D(1) i False] by blast
    from who o D(5) [of j] have "\<nexists>e. dt_options s j = Some (Inl e)" by blast
    with j(2) have "default_step W B refs (Evaluate_Environment F x) j s = Some (s\<lparr>dt_env := u\<rparr>)"
      by (auto split: option.split sum.split)
    with j(1) show ?thesis by (blast intro: default_threads_step.intros)
  next
    case True
    with nf o obtain e where e: "env_pcs (dt_env s) i = Env e"
      by (auto simp: env_finished_def default_finished_def outcome_def split: option.splits sum.splits)
    show ?thesis
    proof (cases "dt_options s i")
      case None
      with e have "\<exists>t. default_step W B refs Evaluate_Options i s = Some t" by simp
      with i show ?thesis by (blast intro: default_threads_step.intros)
    next
      case (Some r)
      with o obtain opts where r: "dt_options s i = Some (Inr opts)" by (cases r) auto
      have "\<not> finished (pcs (dt_ssl s) i)"
        using nf r e by (cases "pcs (dt_ssl s) i") (auto simp: default_finished_def outcome_def finished_def)
      with default_call_moves [OF inv fr i r e] show ?thesis by blast
    qed
  qed
qed

lemma default_finished_stuck:
  assumes inv: "default_inv W B refs n h s" and f: "default_finished s i"
  shows "default_step W B refs m i s = None"
proof (rule ccontr)
  note D = default_invD(4) [OF inv, of i]
  assume "default_step W B refs m i s \<noteq> None"
  then obtain t where "default_step W B refs m i s = Some t" by blast
  then show False
  proof (cases rule: default_step_cases)
    case options
    with f D show False
      by (auto simp: default_finished_def outcome_def split: env_pc.splits pc.splits)
  next
    case (environment F x u)
    with f D show False
      by (auto simp: default_finished_def outcome_def env_step_def split: option.splits sum.splits env_pc.splits pc.splits)
  next
    case (constructor opts e u)
    with f show False
      by (auto simp: default_finished_def outcome_def thread_step_def split: pc.splits)
  qed
qed

lemma default_stuck_iff:
  assumes inv: "default_inv W B refs n h s" and fr: "allocator_fresh W"
  shows "(\<nexists>t. default_threads_step W B refs n s t) \<longleftrightarrow> (\<forall>i<n. default_finished s i)"
  using default_progress [OF assms] default_finished_stuck [OF inv] by (fastforce elim!: default_threads_stepE)

lemma default_finished_held:
  assumes inv: "default_inv W B refs n h s" and f: "default_finished s i"
  shows "held (pcs (dt_ssl s) i) = None"
  using f default_invD(4) [OF inv, of i]
  by (cases "pcs (dt_ssl s) i") (auto simp: default_finished_def outcome_def split: option.splits sum.splits env_pc.splits)

lemma default_weight_init: "default_threads_init h s \<Longrightarrow> default_weight n s = 16 * n"
  using env_weight_init [of h "dt_env s" n]
  by (simp add: default_threads_init_def default_weight_def threads_init_def threads_weight_def)

section \<open>One thread alone\<close>

inductive default_moves ::
  "wolfssl \<Rightarrow> wolfssl_build \<Rightarrow> (nat \<Rightarrow> addr \<times> addr) \<Rightarrow> nat \<Rightarrow> 'u default_threads \<Rightarrow> 'u default_threads \<Rightarrow> bool"
  for W B refs i where
  "default_step W B refs m i s = Some t \<Longrightarrow> default_moves W B refs i s t"

lemma default_moves_run:
  "(default_moves W B refs i)\<^sup>*\<^sup>* s t \<Longrightarrow> i < n \<Longrightarrow> (default_threads_step W B refs n)\<^sup>*\<^sup>* s t"
  by (induction rule: rtranclp_induct)
    (auto elim!: default_moves.cases intro: rtranclp.rtrancl_into_rtrancl default_threads_step.intros)

text \<open>The steps of the parts are steps of the whole.\<close>

lemma lift_env_moves:
  assumes "(env_moves i)\<^sup>*\<^sup>* (dt_env s) u" and "\<nexists>e. dt_options s i = Some (Inl e)"
  shows "(default_moves W B refs i)\<^sup>*\<^sup>* s (s\<lparr>dt_env := u\<rparr>)"
  using assms(1)
proof (induction rule: rtranclp_induct)
  case (step u v)
  from step(2) obtain F x where "env_step F x i u = Some v" by (auto elim: env_moves.cases)
  with assms(2) have "default_step W B refs (Evaluate_Environment F x) i (s\<lparr>dt_env := u\<rparr>) = Some (s\<lparr>dt_env := v\<rparr>)"
    by (auto split: option.split sum.split)
  with step.IH show ?case by (blast intro: rtranclp.rtrancl_into_rtrancl default_moves.intros)
qed simp

lemma lift_solo:
  assumes "dt_options s i = Some (Inr opts)" and "env_pcs (dt_env s) i = Env e"
  shows "(default_moves W B refs i)\<^sup>*\<^sup>* s (s\<lparr>dt_ssl := solo k W (default_job refs opts) i (dt_ssl s)\<rparr>)"
  using assms
proof (induction k arbitrary: s)
  case (Suc k)
  show ?case
  proof (cases "thread_step W (default_job refs opts) i (dt_ssl s)")
    case (Some u)
    with Suc.prems have "default_moves W B refs i s (s\<lparr>dt_ssl := u\<rparr>)"
      by (intro default_moves.intros [of W B refs Run_Constructor]) simp
    moreover have "(default_moves W B refs i)\<^sup>*\<^sup>* (s\<lparr>dt_ssl := u\<rparr>) (s\<lparr>dt_ssl := solo k W (default_job refs opts) i u\<rparr>)"
      using Suc.IH [of "s\<lparr>dt_ssl := u\<rparr>"] Suc.prems by simp
    ultimately show ?thesis using Some by (auto intro: converse_rtranclp_into_rtranclp)
  qed simp
qed simp

lemma ssl_construct_initializes: "ssl_construct W a opts b w = (r, w') \<Longrightarrow> sslInitDone w'"
  by (erule ssl_construct_cases) (simp_all add: call_once_init_def)

text \<open>
  The states in which a thread can begin; the sequential state that corresponds to one; what the thread
  leaves to the others.
\<close>

definition undisturbed :: "'u default_threads \<Rightarrow> nat \<Rightarrow> bool" where
  "undisturbed s i \<longleftrightarrow> dt_options s i = None \<and> env_pcs (dt_env s) i = Evaluating Map.empty
     \<and> guards (dt_env s) = (\<lambda>_. None) \<and> pcs (dt_ssl s) i = At_Once \<and> (\<forall>k. once (dt_ssl s) \<noteq> In_Progress k)"

definition corresponds :: "'u default_threads \<Rightarrow> 'u life \<Rightarrow> bool" where
  "corresponds s l \<longleftrightarrow> lt_heap l = shared (dt_env s) \<and> wd (lt_sys l) = world_of (dt_ssl s)"

definition others_same :: "nat \<Rightarrow> 'u default_threads \<Rightarrow> 'u default_threads \<Rightarrow> bool" where
  "others_same i s t \<longleftrightarrow> (\<forall>j. j \<noteq> i \<longrightarrow> dt_options t j = dt_options s j
     \<and> env_pcs (dt_env t) j = env_pcs (dt_env s) j \<and> pcs (dt_ssl t) j = pcs (dt_ssl s) j)"

definition idle_locks :: "'u default_threads \<Rightarrow> bool" where
  "idle_locks s \<longleftrightarrow> guards (dt_env s) = (\<lambda>_. None) \<and> (\<forall>k. once (dt_ssl s) \<noteq> In_Progress k)"

text \<open>With both arguments a thread runs the constructor.\<close>

lemma solo_constructor:
  assumes "dt_options s i = Some (Inr opts)" and "env_pcs (dt_env s) i = Env e" and "pcs (dt_ssl s) i = At_Once"
    and "idle_locks s"
    and "ssl_construct W (fst (refs i)) opts (snd (refs i)) (world_of (dt_ssl s)) = (r, w)"
  shows "\<exists>t. (default_moves W B refs i)\<^sup>*\<^sup>* s t \<and> outcome t i = Some r \<and> dt_env t = dt_env s
     \<and> world_of (dt_ssl t) = w \<and> others_same i s t \<and> idle_locks t"
proof -
  let ?u = "solo 8 W (default_job refs opts) i (dt_ssl s)"
  have "history ?u = events w \<and> once ?u = Called \<and> pcs ?u i = (case r of Inl e \<Rightarrow> Threw e | Inr x \<Rightarrow> Constructed x)"
    using assms(3-5) by (intro solo_sequential) (simp_all add: default_job_def idle_locks_def)
  moreover from this ssl_construct_initializes [OF assms(5)] have "world_of ?u = w" by (simp add: world_of_def)
  ultimately have "outcome (s\<lparr>dt_ssl := ?u\<rparr>) i = Some r \<and> world_of ?u = w
      \<and> others_same i s (s\<lparr>dt_ssl := ?u\<rparr>) \<and> idle_locks (s\<lparr>dt_ssl := ?u\<rparr>)"
    using assms(1,2,4) by (auto simp: outcome_def others_same_def idle_locks_def solo_others split: sum.split)
  with lift_solo [OF assms(1,2)] show ?thesis by (intro exI [of _ "s\<lparr>dt_ssl := ?u\<rparr>"]) simp
qed

text \<open>With the options or without them, a thread runs the evaluation of the environment.\<close>

lemma solo_evaluation:
  assumes "\<nexists>e. dt_options s i = Some (Inl e)" and "env_pcs (dt_env s) i = Evaluating Map.empty" and "idle_locks s"
    and "mk_PKIEnvironment F ord None None None (shared (dt_env s)) = (r, h)"
  shows "\<exists>u. (default_moves W B refs i)\<^sup>*\<^sup>* s (s\<lparr>dt_env := u\<rparr>) \<and> shared u = h
     \<and> env_pcs u i = (case r of Inl e \<Rightarrow> Env_Threw e | Inr e \<Rightarrow> Env e)
     \<and> others_same i s (s\<lparr>dt_env := u\<rparr>) \<and> idle_locks (s\<lparr>dt_env := u\<rparr>)"
proof -
  obtain u where u: "(env_moves i)\<^sup>*\<^sup>* (dt_env s) u" "guards u = (\<lambda>_. None)" "shared u = h"
      "env_pcs u i = (case r of Inl e \<Rightarrow> Env_Threw e | Inr e \<Rightarrow> Env e)"
      "\<forall>j. j \<noteq> i \<longrightarrow> env_pcs u j = env_pcs (dt_env s) j"
    using solo_environment [OF assms(2) _ assms(4)] assms(3) by (auto simp: idle_locks_def)
  then have "others_same i s (s\<lparr>dt_env := u\<rparr>)" "idle_locks (s\<lparr>dt_env := u\<rparr>)"
    using assms(3) by (simp_all add: others_same_def idle_locks_def)
  with u lift_env_moves [OF u(1) assms(1)] show ?thesis by blast
qed

lemma solo_options:
  assumes "dt_options s i = None" and "between_arguments (env_pcs (dt_env s) i)"
  shows "default_moves W B refs i s (s\<lparr>dt_options := (dt_options s)(i \<mapsto> mk_SSLOptions B CLIENT)\<rparr>)"
  using assms by (intro default_moves.intros [of W B refs Evaluate_Options]) simp

lemma others_same_trans: "others_same i s t \<Longrightarrow> others_same i t u \<Longrightarrow> others_same i s u"
  by (simp add: others_same_def)

text \<open>Both orders of evaluation.\<close>

lemma solo_arguments:
  assumes s: "undisturbed s i" and d: "default_arguments ord env_first B F (shared (dt_env s)) = (r, h)"
  shows "\<exists>t. (default_moves W B refs i)\<^sup>*\<^sup>* s t \<and> shared (dt_env t) = h \<and> dt_ssl t = dt_ssl s
     \<and> others_same i s t \<and> idle_locks t
     \<and> (case r of Inl e \<Rightarrow> outcome t i = Some (Inl e)
        | Inr (opts, env) \<Rightarrow> dt_options t i = Some (Inr opts) \<and> env_pcs (dt_env t) i = Env env)"
proof -
  from s have o: "dt_options s i = None" and ev: "env_pcs (dt_env s) i = Evaluating Map.empty"
    and at: "pcs (dt_ssl s) i = At_Once" and il: "idle_locks s"
    by (simp_all add: undisturbed_def idle_locks_def)
  obtain re h1 where e: "mk_PKIEnvironment F ord None None None (shared (dt_env s)) = (re, h1)" by fastforce
  let ?opt = "\<lambda>s :: 'a default_threads. s\<lparr>dt_options := (dt_options s)(i \<mapsto> mk_SSLOptions B CLIENT)\<rparr>"
  show ?thesis
  proof (cases env_first)
    case True
    from solo_evaluation [OF _ ev il e, of W B refs] o obtain u where
      u: "(default_moves W B refs i)\<^sup>*\<^sup>* s (s\<lparr>dt_env := u\<rparr>)" "shared u = h1"
        "env_pcs u i = (case re of Inl e \<Rightarrow> Env_Threw e | Inr e \<Rightarrow> Env e)"
        "others_same i s (s\<lparr>dt_env := u\<rparr>)" "idle_locks (s\<lparr>dt_env := u\<rparr>)" by auto
    show ?thesis
    proof (cases re)
      case (Inl x)
      with u d True e o show ?thesis
        by (intro exI [of _ "s\<lparr>dt_env := u\<rparr>"]) (auto simp: default_arguments_def outcome_def)
    next
      case (Inr env)
      let ?t = "?opt (s\<lparr>dt_env := u\<rparr>)"
      have "default_moves W B refs i (s\<lparr>dt_env := u\<rparr>) ?t" using u(3) Inr o by (intro solo_options) simp_all
      with u(1) have run: "(default_moves W B refs i)\<^sup>*\<^sup>* s ?t" by (rule rtranclp.rtrancl_into_rtrancl)
      from d True e Inr have "h = h1" "r = rbind (mk_SSLOptions B CLIENT) (\<lambda>opts. Inr (opts, env))"
        by (simp_all add: default_arguments_def)
      with run u Inr show ?thesis
        by (intro exI [of _ ?t]) (auto simp: outcome_def others_same_def idle_locks_def split: sum.split)
    qed
  next
    case False
    have run: "default_moves W B refs i s (?opt s)" using o ev by (intro solo_options) simp_all
    show ?thesis
    proof (cases "mk_SSLOptions B CLIENT")
      case (Inl x)
      with run d False il show ?thesis
        by (intro exI [of _ "?opt s"]) (auto simp: default_arguments_def outcome_def others_same_def idle_locks_def)
    next
      case (Inr opts)
      then have "\<nexists>e. dt_options (?opt s) i = Some (Inl e)" "env_pcs (dt_env (?opt s)) i = Evaluating Map.empty"
          "idle_locks (?opt s)" "mk_PKIEnvironment F ord None None None (shared (dt_env (?opt s))) = (re, h1)"
        using ev il e by (simp_all add: idle_locks_def)
      from solo_evaluation [OF this, of W B refs] obtain u where
        u: "(default_moves W B refs i)\<^sup>*\<^sup>* (?opt s) ((?opt s)\<lparr>dt_env := u\<rparr>)" "shared u = h1"
          "env_pcs u i = (case re of Inl e \<Rightarrow> Env_Threw e | Inr e \<Rightarrow> Env e)"
          "others_same i (?opt s) ((?opt s)\<lparr>dt_env := u\<rparr>)" "idle_locks ((?opt s)\<lparr>dt_env := u\<rparr>)" by blast
      from run u(1) have "(default_moves W B refs i)\<^sup>*\<^sup>* s ((?opt s)\<lparr>dt_env := u\<rparr>)"
        by (rule converse_rtranclp_into_rtranclp)
      moreover from d False e Inr have "h = h1" "r = rbind re (\<lambda>env. Inr (opts, env))"
        by (simp_all add: default_arguments_def)
      ultimately show ?thesis
        using u Inr by (intro exI [of _ "(?opt s)\<lparr>dt_env := u\<rparr>"])
          (auto simp: outcome_def others_same_def split: sum.split)
    qed
  qed
qed

lemma solo_default:
  assumes s: "undisturbed s i" and l: "corresponds s l" "refs i = (lt_next l, lt_next l + 1)"
    and d: "default_construct ord env_first W B F l = (r, l')"
  shows "\<exists>t. (default_moves W B refs i)\<^sup>*\<^sup>* s t \<and> outcome t i = Some r \<and> corresponds t l' \<and> others_same i s t \<and> idle_locks t"
proof -
  obtain ra h where a: "default_arguments ord env_first B F (shared (dt_env s)) = (ra, h)" by fastforce
  from solo_arguments [OF s this, of W refs] obtain t where
    t: "(default_moves W B refs i)\<^sup>*\<^sup>* s t" "shared (dt_env t) = h" "dt_ssl t = dt_ssl s" "others_same i s t" "idle_locks t"
      and r: "case ra of Inl e \<Rightarrow> outcome t i = Some (Inl e)
        | Inr (opts, env) \<Rightarrow> dt_options t i = Some (Inr opts) \<and> env_pcs (dt_env t) i = Env env" by blast
  show ?thesis
  proof (cases ra)
    case (Inl e)
    with t r d a l show ?thesis
      by (intro exI [of _ t]) (auto simp: default_construct_def destroy_temporaries_def Let_def corresponds_def)
  next
    case (Inr oe)
    obtain opts env where oe: "oe = (opts, env)" by fastforce
    obtain rs w where c: "ssl_construct W (lt_next l) opts (lt_next l + 1) (world_of (dt_ssl s)) = (rs, w)" by fastforce
    from r Inr oe have "dt_options t i = Some (Inr opts)" "env_pcs (dt_env t) i = Env env" by simp_all
    moreover have "pcs (dt_ssl t) i = At_Once" using s t(3) by (simp add: undisturbed_def)
    moreover have "ssl_construct W (fst (refs i)) opts (snd (refs i)) (world_of (dt_ssl t)) = (rs, w)"
      using c l(2) t(3) by simp
    ultimately obtain u where u: "(default_moves W B refs i)\<^sup>*\<^sup>* t u" "outcome u i = Some rs" "dt_env u = dt_env t"
        "world_of (dt_ssl u) = w" "others_same i t u" "idle_locks u"
      using solo_constructor [where B = B, OF _ _ _ t(5)] by blast
    from d a Inr oe c l(1) have "r = rs" "lt_heap l' = h" "wd (lt_sys l') = w"
      by (auto simp: default_construct_def destroy_temporaries_def Let_def corresponds_def)
    with t u show ?thesis
      by (intro exI [of _ u]) (auto simp: corresponds_def intro: others_same_trans)
  qed
qed

section \<open>A sample of two threads\<close>

definition sample_refs :: "nat \<Rightarrow> addr \<times> addr" where
  "sample_refs i = (2 * i, 2 * i + 1)"

definition sample_default_start :: "nat default_threads" where
  "sample_default_start = \<lparr>dt_options = Map.empty, dt_env = sample_env_start, dt_ssl = sample_start\<rparr>"

lemma sample_default_start_init: "default_threads_init empty_heap sample_default_start"
  by (simp add: default_threads_init_def sample_default_start_def sample_env_start_init threads_init_def sample_start_def)

lemma sample_default_start_undisturbed: "undisturbed sample_default_start i"
  by (simp add: undisturbed_def sample_default_start_def sample_env_start_def sample_start_def)

lemma sample_default_start_corresponds: "corresponds sample_default_start sample_life"
  by (simp add: corresponds_def sample_default_start_def sample_env_start_def sample_start_def sample_life_def
      world_of_def sample_world_def)

text \<open>With the sample libraries the default constructor returns from every state.\<close>

lemma sample_constructs: "\<exists>x l'. default_construct ord env_first sample_wolfssl full_build sample_fs (l :: 'u life) = (Inr x, l')"
proof -
  obtain e and h :: "nat heap" where "mk_PKIEnvironment sample_fs Order_ACK None None None empty_heap = (Inr e, h)"
    using sample_first_mk by blast
  then have root: "\<not> throws (spec_root sample_fs None)"
    using default_env_throws [of sample_fs Order_ACK "empty_heap :: nat heap"] by (simp add: empty_heap_def)
  have "\<not> throws (getDefaultCipherList full_build TLSV1_3)"
    using sample_mk_options by (auto simp: mk_SSLOptions_def rbind_eq_Inr_iff not_throws_iff)
  with root obtain opts env where r: "fst (default_arguments ord env_first full_build sample_fs (lt_heap l)) = Inr (opts, env)"
    using default_arguments_throws [of ord env_first full_build sample_fs "lt_heap l"] by (auto simp: not_throws_iff)
  then have "opts = sample_tls13_options"
    using default_arguments_options sample_mk_options by fastforce
  moreover obtain h1 where "default_arguments ord env_first full_build sample_fs (lt_heap l) = (Inr (opts, env), h1)"
    using r by (metis prod.collapse)
  moreover have "\<exists>x w'. ssl_construct sample_wolfssl a sample_tls13_options b w = (Inr x, w')" for a b w
    by (simp add: ssl_construct_def client_method_def wolfSSL_CTX_new_eq Let_def sample_wolfssl_def
        sample_tls13_options_def all_tls13_def join_ciphers_def c_str_def NUL_def)
  then obtain x w where
    "ssl_construct sample_wolfssl (lt_next l) sample_tls13_options (Suc (lt_next l)) (wd (lt_sys l)) = (Inr x, w)"
    by blast
  ultimately show ?thesis by (simp add: default_construct_def Let_def)
qed

lemma outcome_Inr: "outcome s i = Some (Inr x) \<Longrightarrow> pcs (dt_ssl s) i = Constructed x"
  by (auto simp: outcome_def split: option.splits sum.splits env_pc.splits pc.splits)

lemma sample_default_run:
  "\<exists>s x y. reachable (default_threads_init (empty_heap :: nat heap))
       (default_threads_step sample_wolfssl full_build sample_refs 2) s
     \<and> pcs (dt_ssl s) 0 = Constructed x \<and> pcs (dt_ssl s) 1 = Constructed y"
proof -
  let ?step = "default_threads_step sample_wolfssl full_build sample_refs 2 :: nat default_threads \<Rightarrow> _"
  obtain x and l :: "nat life" where x: "default_construct Order_ACK False sample_wolfssl full_build sample_fs sample_life = (Inr x, l)"
    using sample_constructs by blast
  have "sample_refs 0 = (lt_next sample_life, lt_next sample_life + 1)" by (simp add: sample_refs_def sample_life_def)
  from solo_default [where refs = sample_refs, OF sample_default_start_undisturbed [of 0] sample_default_start_corresponds this x]
  obtain s where s: "(default_moves sample_wolfssl full_build sample_refs 0)\<^sup>*\<^sup>* sample_default_start s"
      "outcome s 0 = Some (Inr x)" "corresponds s l" "others_same 0 sample_default_start s" "idle_locks s" by blast
  obtain y and l' :: "nat life" where y: "default_construct Order_KCA True sample_wolfssl full_build sample_fs l = (Inr y, l')"
    using sample_constructs by blast
  have "lt_next l = 2" using default_construct_sys [OF x] by (simp add: sample_life_def)
  then have "sample_refs 1 = (lt_next l, lt_next l + 1)" by (simp add: sample_refs_def)
  moreover have "undisturbed s 1"
    using s(4,5) sample_default_start_undisturbed [of 1] by (simp add: undisturbed_def others_same_def idle_locks_def)
  ultimately obtain t where t: "(default_moves sample_wolfssl full_build sample_refs 1)\<^sup>*\<^sup>* s t"
      "outcome t 1 = Some (Inr y)" "others_same 1 s t"
    using solo_default [where refs = sample_refs, OF _ s(3) _ y] by blast
  have "?step\<^sup>*\<^sup>* sample_default_start s" by (rule default_moves_run [OF s(1)]) simp
  moreover have "?step\<^sup>*\<^sup>* s t" by (rule default_moves_run [OF t(1)]) simp
  ultimately have "?step\<^sup>*\<^sup>* sample_default_start t" by (rule rtranclp_trans)
  then have "reachable (default_threads_init empty_heap) ?step t"
    by (rule reachable_run) (rule reachable_init [where init = "default_threads_init empty_heap", OF sample_default_start_init])
  moreover have "pcs (dt_ssl t) 0 = Constructed x" using outcome_Inr [OF s(2)] t(3) by (simp add: others_same_def)
  ultimately show ?thesis using outcome_Inr [OF t(2)] by blast
qed

section \<open>Properties\<close>

text \<open>Each part of the composition runs as it does alone: what is proved of the static instances and of
  \<open>call_once\<close> holds in it.\<close>

theorem default_threads_refine_parts:
  assumes "reachable (default_threads_init h) (default_threads_step W B refs n) s"
  shows "reachable (env_threads_init h) (env_threads_step n) (dt_env s)
     \<and> reachable threads_init (threads_step W (default_jobs B refs) n) (dt_ssl s)"
  using defaults_env.reachable_proj [OF assms] defaults_ssl.reachable_proj [OF assms] by blast

text \<open>C4: threads that construct contexts with default arguments, however they interleave, initialize
  wolfSSL once and before every other call, and make every static instance at most once. The contexts of two
  threads are different ones, both configured for TLS 1.3 with all its ciphers that the build has; their environments
  were the same, made of the static instances.\<close>

theorem default_contexts_agree:
  assumes "allocator_fresh W" and "reachable (default_threads_init h) (default_threads_step W B refs n) s"
    and "pcs (dt_ssl s) i = Constructed x" and "pcs (dt_ssl s) j = Constructed y"
  shows "lawful (history (dt_ssl s)) \<and> distinct (made (dt_env s))
     \<and> (\<exists>e. env_pcs (dt_env s) i = Env e \<and> env_pcs (dt_env s) j = Env e \<and> env_ok (shared (dt_env s)) e)
     \<and> (\<exists>c d. getNativeHandle x = Some c \<and> getNativeHandle y = Some d \<and> (c = d \<longleftrightarrow> i = j)
        \<and> (\<forall>k \<in> {c, d}. k \<in> live (history (dt_ssl s)) \<and> ctx_config (SSL_SUCCESS W) (history (dt_ssl s)) k =
             Some (wolfTLSv1_3_client_method, Some TLS1_3_VERSION, Some (c_str (join_ciphers (tls13_ciphers B))))))"
proof -
  have inv: "default_inv W B refs n h s" by (rule defaults.inv_reachable [OF assms(2)])
  note D = default_invD [OF inv]
  from D(2) [OF assms(1)] have own: "own_inv (SSL_SUCCESS W) (\<lambda>i. held (pcs (dt_ssl s) i)) (history (dt_ssl s))"
    and cfg: "\<And>i. pc_config W (default_jobs B refs i) (history (dt_ssl s)) (pcs (dt_ssl s) i)"
    by (auto simp: threads_inv_def)
  from D(4) [of i] assms(3) obtain opts e where i: "dt_options s i = Some (Inr opts)" "env_pcs (dt_env s) i = Env e" by auto
  from D(4) [of j] assms(4) obtain e' where j: "env_pcs (dt_env s) j = Env e'" by auto
  have mk: "mk_SSLOptions B CLIENT = Inr opts" using D(3) [OF i(1)] by simp
  have configured: "\<exists>c. getNativeHandle z = Some c \<and> c \<in> live (history (dt_ssl s)) \<and> ctx_config (SSL_SUCCESS W) (history (dt_ssl s)) c =
      Some (wolfTLSv1_3_client_method, Some TLS1_3_VERSION, Some (c_str (join_ciphers (tls13_ciphers B))))"
    if "pcs (dt_ssl s) k = Constructed z" for k z
    using cfg [of k] own_live [OF own, of k] that mk mk_SSLOptions_Inr [OF mk]
    by (auto simp: pc_config_def default_job_def client_method_def getNativeHandle_def)
  obtain c d where "getNativeHandle x = Some c" "getNativeHandle y = Some d" and "c = d \<longleftrightarrow> i = j"
    using configured [OF assms(3)] configured [OF assms(4)] own_exclusive [OF own, of i _ j] assms(3,4)
    by (cases "i = j") (auto simp: getNativeHandle_def)
  with configured [OF assms(3)] configured [OF assms(4)] own env_threads_agree [OF D(1) i(2) j] i(2) j
    env_threads_instances [OF D(1) i(2)] env_threads_invD(7) [OF D(1)] show ?thesis
    by (auto simp: own_inv_def)
qed

theorem default_contexts_agree_witness:
  "\<exists>s x y. reachable (default_threads_init (empty_heap :: nat heap))
       (default_threads_step sample_wolfssl full_build sample_refs 2) s
     \<and> pcs (dt_ssl s) 0 = Constructed x \<and> pcs (dt_ssl s) 1 = Constructed y \<and> getNativeHandle x \<noteq> getNativeHandle y"
proof -
  obtain s x y where "reachable (default_threads_init (empty_heap :: nat heap))
       (default_threads_step sample_wolfssl full_build sample_refs 2) s"
     "pcs (dt_ssl s) 0 = Constructed x" "pcs (dt_ssl s) 1 = Constructed y"
    using sample_default_run by blast
  with default_contexts_agree [OF sample_fresh this] show ?thesis by (intro exI [of _ s] exI [of _ x] exI [of _ y]) auto
qed

text \<open>C18: the two kinds of locks cannot block the threads together: every run has at most sixteen steps per
  thread; from every state the threads can go on until each has destroyed its context or had an exception, and
  they stop nowhere else. No context is then allocated but those whose cipher list was refused.\<close>

theorem default_contexts_terminate:
  assumes "allocator_fresh W" and "default_threads_init h s0" and "(default_threads_step W B refs n ^^ k) s0 s"
  shows "k \<le> 16 * n
     \<and> (\<exists>t. (default_threads_step W B refs n)\<^sup>*\<^sup>* s t \<and> (\<forall>i<n. default_finished t i)
          \<and> live (history (dt_ssl t)) = rejected (SSL_SUCCESS W) (history (dt_ssl t)))
     \<and> ((\<nexists>t. default_threads_step W B refs n s t) \<longleftrightarrow> (\<forall>i<n. default_finished s i))"
proof -
  have inv0: "default_inv W B refs n h s0" by (rule default_inv_init [OF assms(2)])
  have inv: "default_inv W B refs n h s" by (rule defaults.inv_run [OF relpowp_imp_rtranclp [OF assms(3)] inv0])
  have "k \<le> 16 * n"
    using defaults.run_bound [OF assms(3) inv0] default_weight_init [OF assms(2), of n] by simp
  moreover obtain t where t: "(default_threads_step W B refs n)\<^sup>*\<^sup>* s t" "\<forall>u. \<not> default_threads_step W B refs n t u"
    using defaults.run_completes [OF inv] by blast
  have inv_t: "default_inv W B refs n h t" by (rule defaults.inv_run [OF t(1) inv])
  have f: "\<forall>i<n. default_finished t i" using default_stuck_iff [OF inv_t assms(1)] t(2) by blast
  have "live (history (dt_ssl t)) = rejected (SSL_SUCCESS W) (history (dt_ssl t))"
    by (rule threads_nothing_held [OF default_invD(2) [OF inv_t assms(1)]]) (use f default_finished_held [OF inv_t] in blast)
  with t(1) f have "\<exists>t. (default_threads_step W B refs n)\<^sup>*\<^sup>* s t \<and> (\<forall>i<n. default_finished t i)
      \<and> live (history (dt_ssl t)) = rejected (SSL_SUCCESS W) (history (dt_ssl t))" by blast
  ultimately show ?thesis using default_stuck_iff [OF inv assms(1)] by blast
qed

theorem default_contexts_terminate_witness:
  "\<exists>t. (default_threads_step sample_wolfssl full_build sample_refs 3)\<^sup>*\<^sup>* sample_default_start t \<and> (\<forall>i<3. default_finished t i)"
proof -
  have "(default_threads_step sample_wolfssl full_build sample_refs 3 ^^ 0) sample_default_start sample_default_start" by simp
  from default_contexts_terminate [OF sample_fresh sample_default_start_init this] show ?thesis by blast
qed

end
