(* ===== verification/Iggy_Model.thy ===== *)
theory Iggy_Model
  imports Iggy_Prelude
begin

text \<open>
  The value objects of \<^verbatim>\<open>sdk/model.h\<close>, over the integer types of
  \<^verbatim>\<open>sdk/types.h\<close>. Every class there has private members, a constructor that
  copies its arguments into them one by one, and one getter per member; a class is a record
  whose fields are the members: the record expression is the constructor, the selectors are
  the getters. The fields carry the class as a prefix. What computes (the delegating
  constructor of \<open>Message\<close>, \<open>isComplete\<close>, the defaulted constructor of
  \<open>Stats\<close>) is a definition. An enumeration is a datatype with the function that gives the
  integer values of its enumerators.
\<close>

section \<open>Shared models\<close>

type_synonym percent_t = u32  \<comment> \<open>the bits of a \<open>float\<close>; the code never computes with one\<close>
type_synonym time_val_t = u64
type_synonym byte_cnt_t = u64
type_synonym obj_cnt_t = u32
type_synonym msg_cnt_t = u64
type_synonym uint128_t = u128
type_synonym pid_t = u32  \<comment> \<open>the two's complement bits of an \<open>int\<close>\<close>

datatype IdKind = NUMERIC | STRING

primrec IdKind_value :: "IdKind \<Rightarrow> int" where
  "IdKind_value NUMERIC = 1"
| "IdKind_value STRING = 2"

record Identifier =
  identifier_kind :: IdKind
  identifier_length :: u8
  identifier_value :: bytes

datatype ConsumerKind = CONSUMER | CONSUMER_GROUP

primrec ConsumerKind_value :: "ConsumerKind \<Rightarrow> int" where
  "ConsumerKind_value CONSUMER = 1"
| "ConsumerKind_value CONSUMER_GROUP = 2"

record Consumer =
  consumer_kind :: ConsumerKind
  consumer_id :: u32

section \<open>Partitions, topics and streams\<close>

record Partition =
  partition_id :: u32
  partition_createdAt :: u64
  partition_segmentsCount :: u32
  partition_currentOffset :: u64
  partition_sizeBytes :: u64
  partition_messagesCount :: u64

record Topic =
  topic_id :: u32
  topic_createdAt :: u64
  topic_name :: string
  topic_sizeBytes :: u64
  topic_messageExpiry :: "u32 option"
  topic_maxTopicSize :: "u64 option"
  topic_replicationFactor :: u8
  topic_messagesCount :: u64
  topic_partitionsCount :: u32

text \<open>\<open>TopicDetails\<close> is declared with its members only: it has no constructor of its own
  and no getter.\<close>

record TopicDetails =
  topicdetails_id :: u32
  topicdetails_createdAt :: u64
  topicdetails_name :: string
  topicdetails_sizeBytes :: u64
  topicdetails_messageExpiry :: "u32 option"
  topicdetails_maxTopicSize :: "u64 option"
  topicdetails_replicationFactor :: u8
  topicdetails_messagesCount :: u64
  topicdetails_partitionsCount :: u32
  topicdetails_partitions :: "Partition list"

record StreamDetails =
  stream_id :: u32
  stream_createdAt :: u64
  stream_name :: string
  stream_sizeBytes :: u64
  stream_messagesCount :: u64
  stream_topicsCount :: u32
  stream_topics :: "Topic list"

section \<open>Messages\<close>

datatype MessageState = AVAILABLE | UNAVAILABLE | POISONED | MARKED_FOR_DELETION

primrec MessageState_value :: "MessageState \<Rightarrow> int" where
  "MessageState_value AVAILABLE = 1"
| "MessageState_value UNAVAILABLE = 10"
| "MessageState_value POISONED = 20"
| "MessageState_value MARKED_FOR_DELETION = 30"

type_synonym HeaderKey = string

datatype HeaderKind =
    RAW | STRING | BOOL
  | INT8 | INT16 | INT32 | INT64 | INT128
  | UINT8 | UINT16 | UINT32 | UINT64 | UINT128
  | FLOAT32 | FLOAT64

primrec HeaderKind_value :: "HeaderKind \<Rightarrow> int" where
  "HeaderKind_value RAW = 1"
| "HeaderKind_value HeaderKind.STRING = 2"
| "HeaderKind_value BOOL = 3"
| "HeaderKind_value INT8 = 4"
| "HeaderKind_value INT16 = 5"
| "HeaderKind_value INT32 = 6"
| "HeaderKind_value INT64 = 7"
| "HeaderKind_value INT128 = 8"
| "HeaderKind_value UINT8 = 9"
| "HeaderKind_value UINT16 = 10"
| "HeaderKind_value UINT32 = 11"
| "HeaderKind_value UINT64 = 12"
| "HeaderKind_value UINT128 = 13"
| "HeaderKind_value FLOAT32 = 14"
| "HeaderKind_value FLOAT64 = 15"

record HeaderValue =
  header_kind :: HeaderKind
  header_value :: bytes

record Message =
  message_id :: uint128_t
  message_headers :: "HeaderKey \<rightharpoonup> HeaderValue"
  message_length :: u32
  message_payload :: bytes
  message_offset :: "u64 option"
  message_state :: "MessageState option"
  message_timestamp :: "u64 option"
  message_checksum :: "u32 option"

definition mk_Message ::
  "uint128_t \<Rightarrow> (HeaderKey \<rightharpoonup> HeaderValue) \<Rightarrow> u32 \<Rightarrow> bytes \<Rightarrow>
   u64 option \<Rightarrow> MessageState option \<Rightarrow> u64 option \<Rightarrow> u32 option \<Rightarrow> Message" where
  "mk_Message i headers len payload offset state timestamp checksum =
     \<lparr>message_id = i, message_headers = headers, message_length = len, message_payload = payload,
      message_offset = offset, message_state = state, message_timestamp = timestamp,
      message_checksum = checksum\<rparr>"

text \<open>The simpler constructor delegates to the full one, with four empty optionals.\<close>

definition mk_Message_simple ::
  "uint128_t \<Rightarrow> (HeaderKey \<rightharpoonup> HeaderValue) \<Rightarrow> u32 \<Rightarrow> bytes \<Rightarrow> Message" where
  "mk_Message_simple i headers len payload = mk_Message i headers len payload None None None None"

definition isComplete :: "Message \<Rightarrow> bool" where
  "isComplete m \<longleftrightarrow> message_offset m \<noteq> None \<and> message_state m \<noteq> None
     \<and> message_timestamp m \<noteq> None \<and> message_checksum m \<noteq> None"

record PolledMessages =
  polled_partition_id :: u32
  polled_current_offset :: u64
  polled_messages :: "Message list"

section \<open>Consumer offsets and consumer groups\<close>

record ConsumerOffsetInfo =
  offsetinfo_partitionId :: u32
  offsetinfo_currentOffset :: u64
  offsetinfo_storedOffset :: u64

record ConsumerGroupMember =
  member_id :: u32
  member_partitionsCount :: u32
  member_partitions :: "u32 list"

record ConsumerGroupDetails =
  group_id :: u32
  group_name :: string
  group_paritionsCount :: u32
  group_membersCount :: u32
  group_members :: "ConsumerGroupMember list"

section \<open>System state\<close>

record ConsumerGroupInfo =
  groupinfo_streamId :: u32
  groupinfo_topicId :: u32
  groupinfo_consumerGroupId :: u32

record ClientInfoDetails =
  clientinfo_clientId :: u32
  clientinfo_userId :: "u32 option"
  clientinfo_address :: string
  clientinfo_transport :: string
  clientinfo_consumerGroupsCount :: u32
  clientinfo_consumerGroups :: "ConsumerGroupInfo list"

record Stats =
  process_id :: pid_t
  cpu_usage :: percent_t
  memory_usage :: byte_cnt_t
  total_memory :: byte_cnt_t
  available_memory :: byte_cnt_t
  run_time :: time_val_t
  start_time :: time_val_t
  read_bytes :: byte_cnt_t
  written_bytes :: byte_cnt_t
  messages_size_bytes :: byte_cnt_t
  streams_count :: obj_cnt_t
  topics_count :: obj_cnt_t
  partitions_count :: obj_cnt_t
  segments_count :: obj_cnt_t
  messages_count :: msg_cnt_t
  clients_count :: obj_cnt_t
  consumer_groups_count :: obj_cnt_t
  stats_hostname :: string
  os_name :: string
  os_version :: string
  kernel_version :: string

text \<open>\<open>Stats()\<close> with the defaulted constructor: value initialization sets every number to
  zero, and every string is empty.\<close>

definition default_Stats :: Stats where
  "default_Stats =
     \<lparr>process_id = 0, cpu_usage = 0, memory_usage = 0, total_memory = 0, available_memory = 0,
      run_time = 0, start_time = 0, read_bytes = 0, written_bytes = 0, messages_size_bytes = 0,
      streams_count = 0, topics_count = 0, partitions_count = 0, segments_count = 0,
      messages_count = 0, clients_count = 0, consumer_groups_count = 0,
      stats_hostname = [], os_name = [], os_version = [], kernel_version = []\<rparr>"

section \<open>Lemmas\<close>

lemma IdKind_value_range: "IdKind_value k \<in> {1..2}"
  by (cases k) simp_all

lemma ConsumerKind_value_range: "ConsumerKind_value k \<in> {1..2}"
  by (cases k) simp_all

lemma MessageState_value_range: "MessageState_value k \<in> {1..30}"
  by (cases k) simp_all

lemma HeaderKind_value_range: "HeaderKind_value k \<in> {1..15}"
  by (cases k) simp_all

lemma IdKind_value_inj: "inj IdKind_value"
  by (rule injI, rename_tac a b, case_tac a; case_tac b; simp)

lemma ConsumerKind_value_inj: "inj ConsumerKind_value"
  by (rule injI, rename_tac a b, case_tac a; case_tac b; simp)

lemma MessageState_value_inj: "inj MessageState_value"
  by (rule injI, rename_tac a b, case_tac a; case_tac b; simp)

lemma HeaderKind_value_inj: "inj HeaderKind_value"
  by (rule injI, rename_tac a b, case_tac a; case_tac b; simp)

lemma HeaderKind_value_surj: "v \<in> {1..15} \<Longrightarrow> \<exists>k. HeaderKind_value k = v"
proof -
  assume "v \<in> {1..15}"
  then have "v = 1 \<or> v = 2 \<or> v = 3 \<or> v = 4 \<or> v = 5 \<or> v = 6 \<or> v = 7 \<or> v = 8
      \<or> v = 9 \<or> v = 10 \<or> v = 11 \<or> v = 12 \<or> v = 13 \<or> v = 14 \<or> v = 15" by (simp; presburger)
  then show ?thesis by (elim disjE) (use HeaderKind_value.simps in blast)+
qed

lemma isComplete_mk_Message:
  "isComplete (mk_Message i headers len payload offset state timestamp checksum) \<longleftrightarrow>
     offset \<noteq> None \<and> state \<noteq> None \<and> timestamp \<noteq> None \<and> checksum \<noteq> None"
  by (simp add: isComplete_def mk_Message_def)

text \<open>A message is complete exactly when the full constructor can make it from four values.\<close>

lemma isComplete_iff_values:
  "isComplete m \<longleftrightarrow> (\<exists>i hs len pl off st ts ck.
     m = mk_Message i hs len pl (Some off) (Some st) (Some ts) (Some ck))"
  by (cases m) (auto simp: isComplete_def mk_Message_def)

section \<open>Properties\<close>

end
