(* ===== verification/Iggy_Command.thy ===== *)
theory Iggy_Command
  imports Iggy_Model
begin

text \<open>
  The commands of \<^verbatim>\<open>sdk/command.h\<close> and the command codes of
  \<^verbatim>\<open>sdk/binary.h\<close>. Each namespace of commands is a datatype with one constructor
  per command class; the arguments are the private members, named by the class prefix, and the
  selectors are the getters (a class without members has none). \<open>Command\<close>, the base
  class, is the sum of them. The specification part says which code belongs to which command.
\<close>

section \<open>Commands\<close>

datatype stream_command =
    GetStream (stream_getStreamId: Identifier)
  | GetStreams
  | CreateStream (stream_getStreamId: Identifier) (stream_getName: string)
  | DeleteStream (stream_getStreamId: Identifier)

datatype topic_command =
    GetTopic (topic_getStreamId: Identifier) (topic_getTopicId: Identifier)
  | GetTopics (topic_getStreamId: Identifier)
  | CreateTopic (topic_getStreamId: Identifier) (createTopic_getTopicId: u32)
      (topic_getPartitionsCount: u32) (topic_getMessageExpiry: "u32 option") (topic_getName: string)

datatype partition_command =
    CreatePartitions (partition_getStreamId: Identifier) (partition_getTopicId: Identifier)
      (partition_getPartitionsCount: u32)
  | DeletePartitions (partition_getStreamId: Identifier) (partition_getTopicId: Identifier)
      (partition_getPartitionsCount: u32)

datatype PollingKind = OFFSET | TIMESTAMP | FIRST | LAST | NEXT

primrec PollingKind_value :: "PollingKind \<Rightarrow> int" where
  "PollingKind_value OFFSET = 1"
| "PollingKind_value TIMESTAMP = 2"
| "PollingKind_value FIRST = 3"
| "PollingKind_value LAST = 4"
| "PollingKind_value NEXT = 5"

record PollingStrategy =
  polling_kind :: PollingKind
  polling_value :: u64

datatype PartitioningKind = BALANCED | PARITION_ID | MESSAGES_KEY

primrec PartitioningKind_value :: "PartitioningKind \<Rightarrow> int" where
  "PartitioningKind_value BALANCED = 1"
| "PartitioningKind_value PARITION_ID = 2"
| "PartitioningKind_value MESSAGES_KEY = 3"

record Partitioning =
  partitioning_kind :: PartitioningKind
  partitioning_length :: u8
  partitioning_value :: bytes

datatype message_command =
    PollMessages (message_getConsumer: Consumer) (message_getStreamId: Identifier)
      (message_getTopicId: Identifier) (message_getPartitionId: u32)
      (message_getStrategy: PollingStrategy) (message_getCount: u32) (message_getAutoCommit: bool)
  | SendMessages

datatype consumeroffset_command =
    GetConsumerOffset (offset_getConsumer: Consumer) (offset_getStreamId: Identifier)
      (offset_getTopicId: Identifier) (offset_getPartitionId: u32)
  | StoreConsumerOffset (offset_getConsumer: Consumer) (offset_getStreamId: Identifier)
      (offset_getTopicId: Identifier) (offset_getPartitionId: u32) (offset_getOffset: u64)

datatype consumergroup_command =
    GetConsumerGroup (group_getStreamId: Identifier) (group_getTopicId: Identifier)
      (group_getConsumerGroupId: u32)
  | GetConsumerGroups (group_getStreamId: Identifier) (group_getTopicId: Identifier)
  | CreateConsumerGroup (group_getStreamId: Identifier) (group_getTopicId: Identifier)
      (group_getConsumerGroupId: u32)
  | DeleteConsumerGroup (group_getStreamId: Identifier) (group_getTopicId: Identifier)
      (group_getConsumerGroupId: u32)
  | JoinConsumerGroup (group_getStreamId: Identifier) (group_getTopicId: Identifier)
      (group_getConsumerGroupId: u32)
  | LeaveConsumerGroup (group_getStreamId: Identifier) (group_getTopicId: Identifier)
      (group_getConsumerGroupId: u32)

datatype system_command =
    Ping
  | GetMe
  | GetClient (system_getClientId: u32)
  | GetClients
  | GetStats

datatype Command =
    Stream stream_command
  | Topic topic_command
  | Partition partition_command
  | Msg message_command
  | ConsumerOffset consumeroffset_command
  | ConsumerGroup consumergroup_command
  | System system_command

section \<open>Command codes\<close>

datatype CommandCode =
    PING | GET_STATS | GET_ME | GET_CLIENT | GET_CLIENTS
  | POLL_MESSAGES | SEND_MESSAGES | GET_CONSUMER_OFFSET | STORE_CONSUMER_OFFSET
  | GET_STREAM | GET_STREAMS | CREATE_STREAM | DELETE_STREAM
  | GET_TOPIC | GET_TOPICS | CREATE_TOPIC | DELETE_TOPIC
  | CREATE_PARTITIONS | DELETE_PARTITIONS
  | GET_CONSUMER_GROUP | GET_CONSUMER_GROUPS | CREATE_CONSUMER_GROUP | DELETE_CONSUMER_GROUP
  | JOIN_CONSUMER_GROUP | LEAVE_CONSUMER_GROUP

primrec CommandCode_value :: "CommandCode \<Rightarrow> int" where
  "CommandCode_value PING = 1"
| "CommandCode_value GET_STATS = 10"
| "CommandCode_value GET_ME = 20"
| "CommandCode_value GET_CLIENT = 21"
| "CommandCode_value GET_CLIENTS = 22"
| "CommandCode_value POLL_MESSAGES = 100"
| "CommandCode_value SEND_MESSAGES = 101"
| "CommandCode_value GET_CONSUMER_OFFSET = 120"
| "CommandCode_value STORE_CONSUMER_OFFSET = 121"
| "CommandCode_value GET_STREAM = 200"
| "CommandCode_value GET_STREAMS = 201"
| "CommandCode_value CREATE_STREAM = 202"
| "CommandCode_value DELETE_STREAM = 203"
| "CommandCode_value GET_TOPIC = 300"
| "CommandCode_value GET_TOPICS = 301"
| "CommandCode_value CREATE_TOPIC = 302"
| "CommandCode_value DELETE_TOPIC = 303"
| "CommandCode_value CREATE_PARTITIONS = 402"
| "CommandCode_value DELETE_PARTITIONS = 403"
| "CommandCode_value GET_CONSUMER_GROUP = 600"
| "CommandCode_value GET_CONSUMER_GROUPS = 601"
| "CommandCode_value CREATE_CONSUMER_GROUP = 602"
| "CommandCode_value DELETE_CONSUMER_GROUP = 603"
| "CommandCode_value JOIN_CONSUMER_GROUP = 604"
| "CommandCode_value LEAVE_CONSUMER_GROUP = 605"

text \<open>The enumerators in the order of their declaration, and their names.\<close>

definition command_codes :: "CommandCode list" where
  "command_codes =
     [PING, GET_STATS, GET_ME, GET_CLIENT, GET_CLIENTS,
      POLL_MESSAGES, SEND_MESSAGES, GET_CONSUMER_OFFSET, STORE_CONSUMER_OFFSET,
      GET_STREAM, GET_STREAMS, CREATE_STREAM, DELETE_STREAM,
      GET_TOPIC, GET_TOPICS, CREATE_TOPIC, DELETE_TOPIC,
      CREATE_PARTITIONS, DELETE_PARTITIONS,
      GET_CONSUMER_GROUP, GET_CONSUMER_GROUPS, CREATE_CONSUMER_GROUP, DELETE_CONSUMER_GROUP,
      JOIN_CONSUMER_GROUP, LEAVE_CONSUMER_GROUP]"

primrec CommandCode_name :: "CommandCode \<Rightarrow> string" where
  "CommandCode_name PING = ''PING''"
| "CommandCode_name GET_STATS = ''GET_STATS''"
| "CommandCode_name GET_ME = ''GET_ME''"
| "CommandCode_name GET_CLIENT = ''GET_CLIENT''"
| "CommandCode_name GET_CLIENTS = ''GET_CLIENTS''"
| "CommandCode_name POLL_MESSAGES = ''POLL_MESSAGES''"
| "CommandCode_name SEND_MESSAGES = ''SEND_MESSAGES''"
| "CommandCode_name GET_CONSUMER_OFFSET = ''GET_CONSUMER_OFFSET''"
| "CommandCode_name STORE_CONSUMER_OFFSET = ''STORE_CONSUMER_OFFSET''"
| "CommandCode_name GET_STREAM = ''GET_STREAM''"
| "CommandCode_name GET_STREAMS = ''GET_STREAMS''"
| "CommandCode_name CREATE_STREAM = ''CREATE_STREAM''"
| "CommandCode_name DELETE_STREAM = ''DELETE_STREAM''"
| "CommandCode_name GET_TOPIC = ''GET_TOPIC''"
| "CommandCode_name GET_TOPICS = ''GET_TOPICS''"
| "CommandCode_name CREATE_TOPIC = ''CREATE_TOPIC''"
| "CommandCode_name DELETE_TOPIC = ''DELETE_TOPIC''"
| "CommandCode_name CREATE_PARTITIONS = ''CREATE_PARTITIONS''"
| "CommandCode_name DELETE_PARTITIONS = ''DELETE_PARTITIONS''"
| "CommandCode_name GET_CONSUMER_GROUP = ''GET_CONSUMER_GROUP''"
| "CommandCode_name GET_CONSUMER_GROUPS = ''GET_CONSUMER_GROUPS''"
| "CommandCode_name CREATE_CONSUMER_GROUP = ''CREATE_CONSUMER_GROUP''"
| "CommandCode_name DELETE_CONSUMER_GROUP = ''DELETE_CONSUMER_GROUP''"
| "CommandCode_name JOIN_CONSUMER_GROUP = ''JOIN_CONSUMER_GROUP''"
| "CommandCode_name LEAVE_CONSUMER_GROUP = ''LEAVE_CONSUMER_GROUP''"

text \<open>The names of the command classes.\<close>

fun class_name :: "Command \<Rightarrow> string" where
  "class_name (Stream c) = (case c of GetStream _ \<Rightarrow> ''GetStream'' | GetStreams \<Rightarrow> ''GetStreams''
     | CreateStream _ _ \<Rightarrow> ''CreateStream'' | DeleteStream _ \<Rightarrow> ''DeleteStream'')"
| "class_name (Topic c) = (case c of GetTopic _ _ \<Rightarrow> ''GetTopic'' | GetTopics _ \<Rightarrow> ''GetTopics''
     | CreateTopic _ _ _ _ _ \<Rightarrow> ''CreateTopic'')"
| "class_name (Partition c) = (case c of CreatePartitions _ _ _ \<Rightarrow> ''CreatePartitions''
     | DeletePartitions _ _ _ \<Rightarrow> ''DeletePartitions'')"
| "class_name (Msg c) = (case c of PollMessages _ _ _ _ _ _ _ \<Rightarrow> ''PollMessages''
     | SendMessages \<Rightarrow> ''SendMessages'')"
| "class_name (ConsumerOffset c) = (case c of GetConsumerOffset _ _ _ _ \<Rightarrow> ''GetConsumerOffset''
     | StoreConsumerOffset _ _ _ _ _ \<Rightarrow> ''StoreConsumerOffset'')"
| "class_name (ConsumerGroup c) = (case c of GetConsumerGroup _ _ _ \<Rightarrow> ''GetConsumerGroup''
     | GetConsumerGroups _ _ \<Rightarrow> ''GetConsumerGroups'' | CreateConsumerGroup _ _ _ \<Rightarrow> ''CreateConsumerGroup''
     | DeleteConsumerGroup _ _ _ \<Rightarrow> ''DeleteConsumerGroup'' | JoinConsumerGroup _ _ _ \<Rightarrow> ''JoinConsumerGroup''
     | LeaveConsumerGroup _ _ _ \<Rightarrow> ''LeaveConsumerGroup'')"
| "class_name (System c) = (case c of Ping \<Rightarrow> ''Ping'' | GetMe \<Rightarrow> ''GetMe''
     | GetClient _ \<Rightarrow> ''GetClient'' | GetClients \<Rightarrow> ''GetClients'' | GetStats \<Rightarrow> ''GetStats'')"

section \<open>The correspondence of commands and codes\<close>

text \<open>
  Specification. The two headers are tied by their names only: a class in camel case belongs to
  the enumerator of the same words in upper case with underscores.
\<close>

definition upper :: "char \<Rightarrow> char" where
  "upper c = (if 97 \<le> (of_char c :: nat) \<and> (of_char c :: nat) \<le> 122 then char_of (of_char c - 32 :: nat) else c)"

definition capital :: "char \<Rightarrow> bool" where
  "capital c \<longleftrightarrow> 65 \<le> (of_char c :: nat) \<and> (of_char c :: nat) \<le> 90"

fun underscores :: "string \<Rightarrow> string" where
  "underscores [] = []"
| "underscores (c # cs) = (if capital c then [CHR ''_'', c] else [upper c]) @ underscores cs"

definition enumerator_name :: "string \<Rightarrow> string" where
  "enumerator_name class = tl (underscores class)"

definition codes_of :: "Command \<Rightarrow> CommandCode list" where
  "codes_of c = filter (\<lambda>k. CommandCode_name k = enumerator_name (class_name c)) command_codes"

text \<open>The block of codes of a functional group.\<close>

fun code_block :: "Command \<Rightarrow> int" where
  "code_block (System _) = 0"
| "code_block (Msg _) = 1"
| "code_block (ConsumerOffset _) = 1"
| "code_block (Stream _) = 2"
| "code_block (Topic _) = 3"
| "code_block (Partition _) = 4"
| "code_block (ConsumerGroup _) = 6"


section \<open>Lemmas\<close>

lemma command_codes_complete: "set command_codes = UNIV"
proof -
  have "k \<in> set command_codes" for k
    by (cases k) (simp_all add: command_codes_def)
  then show ?thesis by blast
qed

lemma command_codes_increasing: "sorted_wrt (<) (map CommandCode_value command_codes)"
  by (simp add: command_codes_def)

lemma CommandCode_value_inj: "inj CommandCode_value"
proof -
  have "distinct (map CommandCode_value command_codes)"
    using command_codes_increasing strict_sorted_iff by blast
  then show ?thesis by (simp add: distinct_map command_codes_complete)
qed

lemma command_names_distinct: "distinct (map CommandCode_name command_codes)"
  by (simp add: command_codes_def)

lemma CommandCode_value_bounds: "0 < CommandCode_value k \<and> CommandCode_value k < 606"
  by (cases k) simp_all

text \<open>Enumerators are compared by their values.\<close>

instantiation CommandCode :: linorder
begin

definition less_eq_CommandCode :: "CommandCode \<Rightarrow> CommandCode \<Rightarrow> bool" where
  "less_eq_CommandCode a b \<longleftrightarrow> CommandCode_value a \<le> CommandCode_value b"

definition less_CommandCode :: "CommandCode \<Rightarrow> CommandCode \<Rightarrow> bool" where
  "less_CommandCode a b \<longleftrightarrow> CommandCode_value a < CommandCode_value b"

instance
  by standard (auto simp: less_eq_CommandCode_def less_CommandCode_def
      dest: injD [OF CommandCode_value_inj])

end

lemma command_codes_sorted: "sorted_wrt (<) command_codes"
  by (simp add: command_codes_def less_CommandCode_def)

lemma PollingKind_value_inj: "inj PollingKind_value"
  by (rule injI, rename_tac a b, case_tac a; case_tac b; simp)

lemma PartitioningKind_value_inj: "inj PartitioningKind_value"
  by (rule injI, rename_tac a b, case_tac a; case_tac b; simp)

lemma PollingKind_value_range: "PollingKind_value k \<in> {1..5}"
  by (cases k) simp_all

lemma PartitioningKind_value_range: "PartitioningKind_value k \<in> {1..3}"
  by (cases k) simp_all

text \<open>The code of a command, by its class; \<open>codes_of\<close> finds it by the name.\<close>

fun code_of :: "Command \<Rightarrow> CommandCode" where
  "code_of (Stream c) = (case c of GetStream _ \<Rightarrow> GET_STREAM | GetStreams \<Rightarrow> GET_STREAMS
     | CreateStream _ _ \<Rightarrow> CREATE_STREAM | DeleteStream _ \<Rightarrow> DELETE_STREAM)"
| "code_of (Topic c) = (case c of GetTopic _ _ \<Rightarrow> GET_TOPIC | GetTopics _ \<Rightarrow> GET_TOPICS
     | CreateTopic _ _ _ _ _ \<Rightarrow> CREATE_TOPIC)"
| "code_of (Partition c) = (case c of CreatePartitions _ _ _ \<Rightarrow> CREATE_PARTITIONS
     | DeletePartitions _ _ _ \<Rightarrow> DELETE_PARTITIONS)"
| "code_of (Msg c) = (case c of PollMessages _ _ _ _ _ _ _ \<Rightarrow> POLL_MESSAGES
     | SendMessages \<Rightarrow> SEND_MESSAGES)"
| "code_of (ConsumerOffset c) = (case c of GetConsumerOffset _ _ _ _ \<Rightarrow> GET_CONSUMER_OFFSET
     | StoreConsumerOffset _ _ _ _ _ \<Rightarrow> STORE_CONSUMER_OFFSET)"
| "code_of (ConsumerGroup c) = (case c of GetConsumerGroup _ _ _ \<Rightarrow> GET_CONSUMER_GROUP
     | GetConsumerGroups _ _ \<Rightarrow> GET_CONSUMER_GROUPS | CreateConsumerGroup _ _ _ \<Rightarrow> CREATE_CONSUMER_GROUP
     | DeleteConsumerGroup _ _ _ \<Rightarrow> DELETE_CONSUMER_GROUP | JoinConsumerGroup _ _ _ \<Rightarrow> JOIN_CONSUMER_GROUP
     | LeaveConsumerGroup _ _ _ \<Rightarrow> LEAVE_CONSUMER_GROUP)"
| "code_of (System c) = (case c of Ping \<Rightarrow> PING | GetMe \<Rightarrow> GET_ME | GetClient _ \<Rightarrow> GET_CLIENT
     | GetClients \<Rightarrow> GET_CLIENTS | GetStats \<Rightarrow> GET_STATS)"

lemma filter_by_name:
  assumes "distinct (map f xs)" and "x \<in> set xs"
  shows "filter (\<lambda>y. f y = f x) xs = [x]"
  using assms by (induction xs) (auto simp: filter_empty_conv intro: rev_image_eqI)

lemmas naming = enumerator_name_def capital_def upper_def char_of_def bit_Suc_0_iff

lemma enumerator_name_class: "enumerator_name (class_name c) = CommandCode_name (code_of c)"
proof (cases c)
  case (Stream x) then show ?thesis by (cases x) (simp_all add: naming)
next
  case (Topic x) then show ?thesis by (cases x) (simp_all add: naming)
next
  case (Partition x) then show ?thesis by (cases x) (simp_all add: naming)
next
  case (Msg x) then show ?thesis by (cases x) (simp_all add: naming)
next
  case (ConsumerOffset x) then show ?thesis by (cases x) (simp_all add: naming)
next
  case (ConsumerGroup x) then show ?thesis by (cases x) (simp_all add: naming)
next
  case (System x) then show ?thesis by (cases x) (simp_all add: naming)
qed

lemma codes_of_code_of: "codes_of c = [code_of c]"
  by (simp add: codes_of_def enumerator_name_class filter_by_name [OF command_names_distinct]
      command_codes_complete)

text \<open>The one enumerator without a class.\<close>

lemma code_of_not_delete_topic: "code_of c \<noteq> DELETE_TOPIC"
  by (cases c rule: code_of.cases) (simp_all split: stream_command.split topic_command.split
      partition_command.split message_command.split consumeroffset_command.split
      consumergroup_command.split system_command.split)

lemma code_of_surj: "k \<noteq> DELETE_TOPIC \<Longrightarrow> \<exists>c. code_of c = k"
proof (cases k)
  case PING
  have "code_of (System Ping) = PING" by simp
  with PING show ?thesis by blast
next
  case GET_STATS
  have "code_of (System GetStats) = GET_STATS" by simp
  with GET_STATS show ?thesis by blast
qed (metis code_of.simps stream_command.case topic_command.case partition_command.case
    message_command.case consumeroffset_command.case consumergroup_command.case system_command.case)+

lemma code_of_block: "CommandCode_value (code_of c) div 100 = code_block c"
  by (cases c rule: code_of.cases) (simp_all split: stream_command.split topic_command.split
      partition_command.split message_command.split consumeroffset_command.split
      consumergroup_command.split system_command.split)

text \<open>Every code but \<open>DELETE_TOPIC\<close> is the code of a command.\<close>

lemma range_code_of: "range code_of = UNIV - {DELETE_TOPIC}"
  using code_of_not_delete_topic code_of_surj by auto

section \<open>Properties\<close>

text \<open>The discriminators that the model and the commands put on the wire decode
  unambiguously and fit in one byte: in each of the six enumerations, different enumerators have
  different values, all between 1 and 255, and the header kinds use every value from 1 to 15.\<close>

theorem discriminators_decode:
  "inj IdKind_value \<and> inj ConsumerKind_value \<and> inj MessageState_value
   \<and> inj HeaderKind_value \<and> inj PollingKind_value \<and> inj PartitioningKind_value
   \<and> range IdKind_value \<union> range ConsumerKind_value \<union> range MessageState_value
     \<union> range PollingKind_value \<union> range PartitioningKind_value \<subseteq> {1..255}
   \<and> range HeaderKind_value = {1..15}"
proof (intro conjI)
  show "range IdKind_value \<union> range ConsumerKind_value \<union> range MessageState_value
     \<union> range PollingKind_value \<union> range PartitioningKind_value \<subseteq> {1..255}"
    using IdKind_value_range ConsumerKind_value_range MessageState_value_range
      PollingKind_value_range PartitioningKind_value_range by fastforce
  show "range HeaderKind_value = {1..15}"
    using HeaderKind_value_range HeaderKind_value_surj by (auto simp: image_iff) metis
qed (rule IdKind_value_inj ConsumerKind_value_inj MessageState_value_inj HeaderKind_value_inj
    PollingKind_value_inj PartitioningKind_value_inj)+

text \<open>C31: commands and codes agree. Every command class has exactly one code of its name,
  in the block of hundred of its functional group (the message and consumer offset commands share
  one); different codes have different values, listed in increasing order; and the codes that belong
  to some class are all but \<open>DELETE_TOPIC\<close>, for which \<^verbatim>\<open>command.h\<close> has no class.\<close>

theorem commands_have_codes:
  "codes_of c = [code_of c]
   \<and> CommandCode_value (code_of c) div 100 = code_block c
   \<and> {k. \<exists>c. k \<in> set (codes_of c)} = UNIV - {DELETE_TOPIC}
   \<and> inj CommandCode_value \<and> set command_codes = UNIV \<and> sorted_wrt (<) command_codes"
proof (intro conjI)
  show "{k. \<exists>c. k \<in> set (codes_of c)} = UNIV - {DELETE_TOPIC}"
    using range_code_of by (simp add: codes_of_code_of) blast
qed (rule codes_of_code_of code_of_block CommandCode_value_inj command_codes_complete
    command_codes_sorted)+

end
