(* ===== verification/Iggy_WireFormat.thy ===== *)
theory Iggy_WireFormat
  imports Iggy_Command
begin

text \<open>
  The class hierarchy behind \<open>WireFormat\<close> of \<^verbatim>\<open>sdk/serialization.h\<close>. Its two member
  templates \<open>read\<close> and \<open>write\<close> are declared without a body; what the code fixes is for which
  classes they exist, by \<open>std::is_base_of\<close>, and on which objects they can be called, by the access
  of the inheritance. The classes are those of \<^verbatim>\<open>sdk/model.h\<close>, \<^verbatim>\<open>sdk/command.h\<close>,
  \<^verbatim>\<open>sdk/binary.h\<close> and \<^verbatim>\<open>sdk/json.h\<close>.
\<close>

section \<open>The classes\<close>

text \<open>The value objects, and the commands.\<close>

datatype model_class =
    C_Identifier | C_Consumer | C_Partition | C_Topic | C_TopicDetails | C_StreamDetails
  | C_HeaderValue | C_Message | C_PolledMessages | C_ConsumerOffsetInfo | C_ConsumerGroupMember
  | C_ConsumerGroupDetails | C_ConsumerGroupInfo | C_ClientInfoDetails | C_Stats

datatype command_class =
    C_GetStream | C_GetStreams | C_CreateStream | C_DeleteStream | C_GetTopic | C_GetTopics
  | C_CreateTopic | C_CreatePartitions | C_DeletePartitions | C_PollMessages | C_SendMessages
  | C_GetConsumerOffset | C_StoreConsumerOffset | C_GetConsumerGroup | C_GetConsumerGroups
  | C_CreateConsumerGroup | C_DeleteConsumerGroup | C_JoinConsumerGroup | C_LeaveConsumerGroup
  | C_Ping | C_GetMe | C_GetClient | C_GetClients | C_GetStats

datatype cpp_class =
    C_Model | Model_Class model_class
  | C_Command | Command_Class command_class | C_PollingStrategy | C_Partitioning
  | C_WireFormat | C_BinaryWireFormat | C_JsonWireFormat

text \<open>A base class and how it is inherited: a class that does not say so inherits privately.\<close>

datatype inheritance = Public_Base cpp_class | Private_Base cpp_class

primrec base_class :: "inheritance \<Rightarrow> cpp_class" where
  "base_class (Public_Base c) = c"
| "base_class (Private_Base c) = c"

primrec model_base :: "model_class \<Rightarrow> inheritance" where
  "model_base C_Identifier = Private_Base C_Model"
| "model_base C_Consumer = Private_Base C_Model"
| "model_base C_Partition = Private_Base C_Model"
| "model_base C_Topic = Private_Base C_Model"
| "model_base C_TopicDetails = Private_Base C_Model"
| "model_base C_StreamDetails = Private_Base C_Model"
| "model_base C_HeaderValue = Private_Base C_Model"
| "model_base C_Message = Private_Base C_Model"
| "model_base C_PolledMessages = Private_Base C_Model"
| "model_base C_ConsumerOffsetInfo = Private_Base C_Model"
| "model_base C_ConsumerGroupMember = Private_Base C_Model"
| "model_base C_ConsumerGroupDetails = Private_Base C_Model"
| "model_base C_ConsumerGroupInfo = Private_Base C_Model"
| "model_base C_ClientInfoDetails = Private_Base C_Model"
| "model_base C_Stats = Private_Base C_Model"

primrec command_base :: "command_class \<Rightarrow> inheritance" where
  "command_base C_GetStream = Private_Base C_Command"
| "command_base C_GetStreams = Private_Base C_Command"
| "command_base C_CreateStream = Private_Base C_Command"
| "command_base C_DeleteStream = Private_Base C_Command"
| "command_base C_GetTopic = Private_Base C_Command"
| "command_base C_GetTopics = Private_Base C_Command"
| "command_base C_CreateTopic = Private_Base C_Command"
| "command_base C_CreatePartitions = Private_Base C_Command"
| "command_base C_DeletePartitions = Private_Base C_Command"
| "command_base C_PollMessages = Private_Base C_Command"
| "command_base C_SendMessages = Private_Base C_Command"
| "command_base C_GetConsumerOffset = Private_Base C_Command"
| "command_base C_StoreConsumerOffset = Private_Base C_Command"
| "command_base C_GetConsumerGroup = Private_Base C_Command"
| "command_base C_GetConsumerGroups = Private_Base C_Command"
| "command_base C_CreateConsumerGroup = Private_Base C_Command"
| "command_base C_DeleteConsumerGroup = Private_Base C_Command"
| "command_base C_JoinConsumerGroup = Private_Base C_Command"
| "command_base C_LeaveConsumerGroup = Private_Base C_Command"
| "command_base C_Ping = Private_Base C_Command"
| "command_base C_GetMe = Private_Base C_Command"
| "command_base C_GetClient = Private_Base C_Command"
| "command_base C_GetClients = Private_Base C_Command"
| "command_base C_GetStats = Private_Base C_Command"

text \<open>The two formats.\<close>

definition binary_base :: inheritance where
  [simp]: "binary_base = Private_Base C_WireFormat"

definition json_base :: inheritance where
  [simp]: "json_base = Private_Base C_WireFormat"

primrec base_of :: "cpp_class \<Rightarrow> inheritance option" where
  "base_of C_Model = None"
| "base_of (Model_Class m) = Some (model_base m)"
| "base_of C_Command = None"
| "base_of (Command_Class k) = Some (command_base k)"
| "base_of C_PollingStrategy = None"
| "base_of C_Partitioning = None"
| "base_of C_WireFormat = None"
| "base_of C_BinaryWireFormat = Some binary_base"
| "base_of C_JsonWireFormat = Some json_base"

lemma model_base_eq: "model_base m = Private_Base C_Model"
  by (cases m) simp_all

lemma command_base_eq: "command_base k = Private_Base C_Command"
  by (cases k) simp_all

lemmas base_simps = model_base_eq command_base_eq

lemma base_of_base: "base_of c = Some i \<Longrightarrow> base_of (base_class i) = None"
  by (cases c) (auto simp: base_simps)

text \<open>\<open>std::is_base_of\<close>, which does not look at the access, and the conversion to a base
  class from outside, which does.\<close>

function is_base_of :: "cpp_class \<Rightarrow> cpp_class \<Rightarrow> bool" where
  "is_base_of b d \<longleftrightarrow> b = d \<or> (case base_of d of None \<Rightarrow> False | Some i \<Rightarrow> is_base_of b (base_class i))"
  by pat_completeness auto
termination
  by (relation "measure (\<lambda>(b, d). if base_of d = None then 0 else 1)") (auto dest: base_of_base)

function accessible_base :: "cpp_class \<Rightarrow> cpp_class \<Rightarrow> bool" where
  "accessible_base b d \<longleftrightarrow> b = d
     \<or> (case base_of d of Some (Public_Base c) \<Rightarrow> accessible_base b c | _ \<Rightarrow> False)"
  by pat_completeness auto
termination
  by (relation "measure (\<lambda>(b, d). if base_of d = None then 0 else 1)") (auto dest: base_of_base)

declare is_base_of.simps [simp del] accessible_base.simps [simp del]

section \<open>The templates\<close>

text \<open>The conditions of the two templates on their type argument.\<close>

definition read_enabled :: "cpp_class \<Rightarrow> bool" where
  "read_enabled T = is_base_of C_Model T"

definition write_enabled :: "cpp_class \<Rightarrow> bool" where
  "write_enabled T = is_base_of C_Command T"

text \<open>Whether the public members of \<open>WireFormat\<close> can be called on an object of a class.\<close>

definition has_wire_format_members :: "cpp_class \<Rightarrow> bool" where
  "has_wire_format_members F = accessible_base C_WireFormat F"

section \<open>Commands and their classes\<close>

primrec stream_class :: "stream_command \<Rightarrow> command_class" where
  "stream_class (GetStream x0) = C_GetStream"
| "stream_class GetStreams = C_GetStreams"
| "stream_class (CreateStream x0 x1) = C_CreateStream"
| "stream_class (DeleteStream x0) = C_DeleteStream"

primrec topic_class :: "topic_command \<Rightarrow> command_class" where
  "topic_class (GetTopic x0 x1) = C_GetTopic"
| "topic_class (GetTopics x0) = C_GetTopics"
| "topic_class (CreateTopic x0 x1 x2 x3 x4) = C_CreateTopic"

primrec partition_class :: "partition_command \<Rightarrow> command_class" where
  "partition_class (CreatePartitions x0 x1 x2) = C_CreatePartitions"
| "partition_class (DeletePartitions x0 x1 x2) = C_DeletePartitions"

primrec message_class :: "message_command \<Rightarrow> command_class" where
  "message_class (PollMessages x0 x1 x2 x3 x4 x5 x6) = C_PollMessages"
| "message_class SendMessages = C_SendMessages"

primrec consumeroffset_class :: "consumeroffset_command \<Rightarrow> command_class" where
  "consumeroffset_class (GetConsumerOffset x0 x1 x2 x3) = C_GetConsumerOffset"
| "consumeroffset_class (StoreConsumerOffset x0 x1 x2 x3 x4) = C_StoreConsumerOffset"

primrec consumergroup_class :: "consumergroup_command \<Rightarrow> command_class" where
  "consumergroup_class (GetConsumerGroup x0 x1 x2) = C_GetConsumerGroup"
| "consumergroup_class (GetConsumerGroups x0 x1) = C_GetConsumerGroups"
| "consumergroup_class (CreateConsumerGroup x0 x1 x2) = C_CreateConsumerGroup"
| "consumergroup_class (DeleteConsumerGroup x0 x1 x2) = C_DeleteConsumerGroup"
| "consumergroup_class (JoinConsumerGroup x0 x1 x2) = C_JoinConsumerGroup"
| "consumergroup_class (LeaveConsumerGroup x0 x1 x2) = C_LeaveConsumerGroup"

primrec system_class :: "system_command \<Rightarrow> command_class" where
  "system_class Ping = C_Ping"
| "system_class GetMe = C_GetMe"
| "system_class (GetClient x0) = C_GetClient"
| "system_class GetClients = C_GetClients"
| "system_class GetStats = C_GetStats"

primrec class_of :: "Command \<Rightarrow> command_class" where
  "class_of (Stream c) = stream_class c"
| "class_of (Topic c) = topic_class c"
| "class_of (Partition c) = partition_class c"
| "class_of (Msg c) = message_class c"
| "class_of (ConsumerOffset c) = consumeroffset_class c"
| "class_of (ConsumerGroup c) = consumergroup_class c"
| "class_of (System c) = system_class c"

definition command_classes :: "command_class list" where
  "command_classes =
     [C_GetStream, C_GetStreams, C_CreateStream, C_DeleteStream, C_GetTopic, C_GetTopics
      , C_CreateTopic, C_CreatePartitions, C_DeletePartitions, C_PollMessages, C_SendMessages
      , C_GetConsumerOffset, C_StoreConsumerOffset, C_GetConsumerGroup, C_GetConsumerGroups
      , C_CreateConsumerGroup, C_DeleteConsumerGroup, C_JoinConsumerGroup, C_LeaveConsumerGroup
      , C_Ping, C_GetMe, C_GetClient, C_GetClients, C_GetStats]"

definition model_classes :: "model_class list" where
  "model_classes =
     [C_Identifier, C_Consumer, C_Partition, C_Topic, C_TopicDetails, C_StreamDetails, C_HeaderValue
      , C_Message, C_PolledMessages, C_ConsumerOffsetInfo, C_ConsumerGroupMember
      , C_ConsumerGroupDetails, C_ConsumerGroupInfo, C_ClientInfoDetails, C_Stats]"

lemma is_base_of_unfold:
  "is_base_of b d \<longleftrightarrow> b = d \<or> (\<exists>i. base_of d = Some i \<and> b = base_class i)"
  using base_of_base [of d]
  by (auto simp: is_base_of.simps [of b d] is_base_of.simps [of b "base_class _"] split: option.split)

lemma write_enabled_iff: "write_enabled T \<longleftrightarrow> T = C_Command \<or> T \<in> range Command_Class"
  by (cases T) (auto simp: write_enabled_def is_base_of_unfold base_simps)

lemma read_enabled_iff: "read_enabled T \<longleftrightarrow> T = C_Model \<or> T \<in> range Model_Class"
  by (cases T) (auto simp: read_enabled_def is_base_of_unfold base_simps)

lemma classes_complete: "set command_classes = UNIV" "set model_classes = UNIV"
proof -
  have "k \<in> set command_classes" for k by (cases k) (simp_all add: command_classes_def)
  then show "set command_classes = UNIV" by auto
  have "m \<in> set model_classes" for m by (cases m) (simp_all add: model_classes_def)
  then show "set model_classes = UNIV" by auto
qed

lemma no_public_base: "base_of c \<noteq> Some (Public_Base b)"
  by (cases c) (simp_all add: base_simps)

lemma accessible_base_eq: "accessible_base b d \<longleftrightarrow> b = d"
  using no_public_base [of d] by (auto simp: accessible_base.simps [of b d] split: option.split inheritance.split)

text \<open>Every command class is that of some command.\<close>

lemma class_of_surj: "\<exists>c. class_of c = k"
proof (cases k)
  case C_GetStream
  then show ?thesis by (intro exI [of _ "Stream (GetStream undefined)"]) simp
next
  case C_GetStreams
  then show ?thesis by (intro exI [of _ "Stream (GetStreams)"]) simp
next
  case C_CreateStream
  then show ?thesis by (intro exI [of _ "Stream (CreateStream undefined undefined)"]) simp
next
  case C_DeleteStream
  then show ?thesis by (intro exI [of _ "Stream (DeleteStream undefined)"]) simp
next
  case C_GetTopic
  then show ?thesis by (intro exI [of _ "Topic (GetTopic undefined undefined)"]) simp
next
  case C_GetTopics
  then show ?thesis by (intro exI [of _ "Topic (GetTopics undefined)"]) simp
next
  case C_CreateTopic
  then show ?thesis by (intro exI [of _ "Topic (CreateTopic undefined undefined undefined undefined undefined)"]) simp
next
  case C_CreatePartitions
  then show ?thesis by (intro exI [of _ "Partition (CreatePartitions undefined undefined undefined)"]) simp
next
  case C_DeletePartitions
  then show ?thesis by (intro exI [of _ "Partition (DeletePartitions undefined undefined undefined)"]) simp
next
  case C_PollMessages
  then show ?thesis by (intro exI [of _ "Msg (PollMessages undefined undefined undefined undefined undefined undefined undefined)"]) simp
next
  case C_SendMessages
  then show ?thesis by (intro exI [of _ "Msg (SendMessages)"]) simp
next
  case C_GetConsumerOffset
  then show ?thesis by (intro exI [of _ "ConsumerOffset (GetConsumerOffset undefined undefined undefined undefined)"]) simp
next
  case C_StoreConsumerOffset
  then show ?thesis by (intro exI [of _ "ConsumerOffset (StoreConsumerOffset undefined undefined undefined undefined undefined)"]) simp
next
  case C_GetConsumerGroup
  then show ?thesis by (intro exI [of _ "ConsumerGroup (GetConsumerGroup undefined undefined undefined)"]) simp
next
  case C_GetConsumerGroups
  then show ?thesis by (intro exI [of _ "ConsumerGroup (GetConsumerGroups undefined undefined)"]) simp
next
  case C_CreateConsumerGroup
  then show ?thesis by (intro exI [of _ "ConsumerGroup (CreateConsumerGroup undefined undefined undefined)"]) simp
next
  case C_DeleteConsumerGroup
  then show ?thesis by (intro exI [of _ "ConsumerGroup (DeleteConsumerGroup undefined undefined undefined)"]) simp
next
  case C_JoinConsumerGroup
  then show ?thesis by (intro exI [of _ "ConsumerGroup (JoinConsumerGroup undefined undefined undefined)"]) simp
next
  case C_LeaveConsumerGroup
  then show ?thesis by (intro exI [of _ "ConsumerGroup (LeaveConsumerGroup undefined undefined undefined)"]) simp
next
  case C_Ping
  then show ?thesis by (intro exI [of _ "System (Ping)"]) simp
next
  case C_GetMe
  then show ?thesis by (intro exI [of _ "System (GetMe)"]) simp
next
  case C_GetClient
  then show ?thesis by (intro exI [of _ "System (GetClient undefined)"]) simp
next
  case C_GetClients
  then show ?thesis by (intro exI [of _ "System (GetClients)"]) simp
next
  case C_GetStats
  then show ?thesis by (intro exI [of _ "System (GetStats)"]) simp
qed

section \<open>Properties\<close>

text \<open>The wire formats as typed: a value can be written when it is a command, of any of the 24
  classes, and read when it is a value object; nothing is both; the parts of a command that are no
  commands (a polling strategy, a partitioning) are neither. But both concrete formats inherit
  privately, as all commands and value objects do: from outside neither \<open>read\<close> nor
  \<open>write\<close> can be called on a format that can be made, and no command converts to \<open>Command\<close>.\<close>

theorem wire_formats_as_typed:
  "(write_enabled T \<longleftrightarrow> T = C_Command \<or> (\<exists>c. T = Command_Class (class_of c)))
   \<and> card (range class_of) = 24
   \<and> (read_enabled T \<longleftrightarrow> T = C_Model \<or> (\<exists>m \<in> set model_classes. T = Model_Class m))
   \<and> \<not> (read_enabled T \<and> write_enabled T)
   \<and> \<not> read_enabled C_PollingStrategy \<and> \<not> write_enabled C_PollingStrategy
   \<and> \<not> read_enabled C_Partitioning \<and> \<not> write_enabled C_Partitioning
   \<and> \<not> has_wire_format_members C_BinaryWireFormat \<and> \<not> has_wire_format_members C_JsonWireFormat
   \<and> is_base_of C_WireFormat C_BinaryWireFormat \<and> is_base_of C_WireFormat C_JsonWireFormat
   \<and> \<not> accessible_base C_Command (Command_Class (class_of c))"
proof -
  have "range class_of = set command_classes"
    using class_of_surj by (auto simp: classes_complete) (metis rangeI)
  moreover have "card (set command_classes) = 24"
    by (subst distinct_card) (simp_all add: command_classes_def)
  moreover have "write_enabled T \<longleftrightarrow> T = C_Command \<or> (\<exists>c. T = Command_Class (class_of c))"
    unfolding write_enabled_iff using class_of_surj by (metis rangeE rangeI)
  ultimately show ?thesis
    by (auto simp: write_enabled_iff read_enabled_iff has_wire_format_members_def accessible_base_eq
        is_base_of_unfold classes_complete)
qed

end
