(* ===== verification/Iggy_Credentials.thy ===== *)
theory Iggy_Credentials
  imports Iggy_Prelude
begin

text \<open>
  \<open>Credentials\<close> of \<^verbatim>\<open>sdk/client.h\<close>, whose destructor erases the password. This is
  about memory, so a \<open>std::string\<close> is here a buffer of bytes with a size and a capacity, in a memory whose
  allocator is a parameter and may hand out again what was given back; the
  operations of \<open>Credentials\<close> are the constructor, the destructor, and the copy constructor
  and copy assignment that the compiler generates (a class with a destructor of its own gets no moves:
  they copy). Programs are lists of these operations.
\<close>

section \<open>Strings in memory\<close>

text \<open>
  The bytes of the memory, those of freed buffers included; the regions in use, each an address and a
  length; and every region that the allocator has handed out so far, the latest first. A region that was
  given back may be handed out again, and its bytes stay as they are until then.
\<close>

record memory =
  cells :: "nat \<Rightarrow> u8"
  live_regions :: "(nat \<times> nat) list"
  handed :: "(nat \<times> nat) list"

definition region_cells :: "nat \<times> nat \<Rightarrow> nat set" where
  "region_cells r = {fst r ..< fst r + snd r}"

definition used :: "memory \<Rightarrow> nat set" where
  "used m = (\<Union>r\<in>set (live_regions m). region_cells r)"

record std_string =
  str_data :: nat
  str_size :: nat
  str_cap :: nat

text \<open>
  What the standard leaves to the implementation of \<open>std::string\<close> and its allocator: the capacity of a
  string of a given size, whether an assignment of a given size reuses a buffer of a given capacity, and
  the address of a new region of a given length, which overlaps no region in use.
\<close>

record string_impl =
  capacity_for :: "nat \<Rightarrow> nat"
  reuses :: "nat \<Rightarrow> nat \<Rightarrow> bool"
  allocate :: "memory \<Rightarrow> nat \<Rightarrow> nat"

definition impl_ok :: "string_impl \<Rightarrow> bool" where
  "impl_ok K \<longleftrightarrow> (\<forall>n. n \<le> capacity_for K n) \<and> (\<forall>c n. reuses K c n \<longrightarrow> n \<le> c)
     \<and> (\<forall>m n. region_cells (allocate K m n, n) \<inter> used m = {})"

definition region :: "std_string \<Rightarrow> nat \<times> nat" where
  "region s = (str_data s, Suc (str_cap s))"

definition read_string :: "memory \<Rightarrow> std_string \<Rightarrow> bytes" where
  "read_string m s = map (cells m) [str_data s ..< str_data s + str_size s]"

definition write_bytes :: "nat \<Rightarrow> bytes \<Rightarrow> (nat \<Rightarrow> u8) \<Rightarrow> (nat \<Rightarrow> u8)" where
  "write_bytes a bs f = (\<lambda>x. if a \<le> x \<and> x < a + length bs then bs ! (x - a) else f x)"

text \<open>A string constructed from bytes, with its terminating NUL; the copy constructor.\<close>

definition new_string :: "string_impl \<Rightarrow> bytes \<Rightarrow> memory \<Rightarrow> std_string \<times> memory" where
  "new_string K bs m =
     (let c = capacity_for K (length bs); a = allocate K m (Suc c)
      in (\<lparr>str_data = a, str_size = length bs, str_cap = c\<rparr>,
          m\<lparr>cells := write_bytes a (bs @ [0]) (cells m),
            live_regions := (a, Suc c) # live_regions m, handed := (a, Suc c) # handed m\<rparr>))"

text \<open>The destructor of a string gives its buffer back, with the bytes it holds.\<close>

definition free_string :: "std_string \<Rightarrow> memory \<Rightarrow> memory" where
  "free_string s m = m\<lparr>live_regions := filter (\<lambda>r. r \<noteq> region s) (live_regions m)\<rparr>"

definition copy_string :: "string_impl \<Rightarrow> std_string \<Rightarrow> memory \<Rightarrow> std_string \<times> memory" where
  "copy_string K s m = new_string K (read_string m s) m"

text \<open>Assignment, in the buffer of the target when it is reused; otherwise in a new one, and the old one is
  given back.\<close>

definition assign_string :: "string_impl \<Rightarrow> std_string \<Rightarrow> std_string \<Rightarrow> memory \<Rightarrow> std_string \<times> memory" where
  "assign_string K this other m =
     (let bs = read_string m other in
      if reuses K (str_cap this) (length bs) then
        (this\<lparr>str_size := length bs\<rparr>, m\<lparr>cells := write_bytes (str_data this) (bs @ [0]) (cells m)\<rparr>)
      else case new_string K bs m of (s, m1) \<Rightarrow> (s, free_string this m1))"

section \<open>Credentials\<close>

text \<open>
  \<open>sodium_memzero(pnt, len)\<close>, documented as overwriting the \<open>len\<close> bytes at
  \<open>pnt\<close> with zeros (and nothing else), with no way to fail.
\<close>

type_synonym sodium_memzero = "nat \<Rightarrow> nat \<Rightarrow> (nat \<Rightarrow> u8) \<Rightarrow> (nat \<Rightarrow> u8)"

definition memzero_documented :: "sodium_memzero \<Rightarrow> bool" where
  "memzero_documented Z \<longleftrightarrow> (\<forall>a n f x. Z a n f x = (if a \<le> x \<and> x < a + n then 0 else f x))"

record Credentials =
  cred_username :: std_string
  cred_password :: std_string

definition mk_Credentials :: "string_impl \<Rightarrow> std_string \<Rightarrow> std_string \<Rightarrow> memory \<Rightarrow> Credentials \<times> memory" where
  "mk_Credentials K username password m =
     (let (u, m1) = copy_string K username m;
          (p, m2) = copy_string K password m1
      in (\<lparr>cred_username = u, cred_password = p\<rparr>, m2))"

text \<open>The generated copies, member by member; the flag says whether both sides are the same object.\<close>

definition copy_Credentials :: "string_impl \<Rightarrow> Credentials \<Rightarrow> memory \<Rightarrow> Credentials \<times> memory" where
  "copy_Credentials K other m = mk_Credentials K (cred_username other) (cred_password other) m"

definition assign_Credentials ::
  "string_impl \<Rightarrow> bool \<Rightarrow> Credentials \<Rightarrow> Credentials \<Rightarrow> memory \<Rightarrow> Credentials \<times> memory" where
  "assign_Credentials K same this other m =
     (if same then (this, m)
      else let (u, m1) = assign_string K (cred_username this) (cred_username other) m;
               (p, m2) = assign_string K (cred_password this) (cred_password other) m1
           in (\<lparr>cred_username = u, cred_password = p\<rparr>, m2))"

text \<open>The destructor: its body, and then the destruction of the members, the last one first.\<close>

definition destroy_Credentials :: "sodium_memzero \<Rightarrow> Credentials \<Rightarrow> memory \<Rightarrow> memory" where
  "destroy_Credentials Z this m =
     (let m1 = m\<lparr>cells := Z (str_data (cred_password this)) (str_size (cred_password this)) (cells m)\<rparr>
      in free_string (cred_username this) (free_string (cred_password this) m1))"

section \<open>Programs\<close>

datatype cred_op = New nat bytes bytes | Copy nat nat | Assign nat nat | Delete nat

text \<open>
  The objects by name, the memory, and the passwords of the objects destroyed so far, each with the number
  of regions that had been handed out when it was destroyed.
\<close>

record cred_sys =
  cs_objs :: "nat \<rightharpoonup> Credentials"
  cs_dead :: "(std_string \<times> nat) list"
  cs_mem :: memory

text \<open>
  An operation is undefined when its target exists already or its source does not. The arguments
  of a construction are strings of the caller, destroyed after it.
\<close>

fun exec_op :: "string_impl \<Rightarrow> sodium_memzero \<Rightarrow> cred_op \<Rightarrow> cred_sys \<Rightarrow> cred_sys option" where
  "exec_op K Z (New i username password) s =
     (if cs_objs s i \<noteq> None then None
      else let (u, m1) = new_string K username (cs_mem s);
               (p, m2) = new_string K password m1;
               (c, m3) = mk_Credentials K u p m2
           in Some (s\<lparr>cs_objs := (cs_objs s)(i \<mapsto> c), cs_mem := free_string u (free_string p m3)\<rparr>))"
| "exec_op K Z (Copy i j) s =
     (case (cs_objs s i, cs_objs s j) of
        (None, Some d) \<Rightarrow> (case copy_Credentials K d (cs_mem s) of
           (c, m) \<Rightarrow> Some (s\<lparr>cs_objs := (cs_objs s)(i \<mapsto> c), cs_mem := m\<rparr>))
      | _ \<Rightarrow> None)"
| "exec_op K Z (Assign i j) s =
     (case (cs_objs s i, cs_objs s j) of
        (Some c, Some d) \<Rightarrow> (case assign_Credentials K (i = j) c d (cs_mem s) of
           (c', m) \<Rightarrow> Some (s\<lparr>cs_objs := (cs_objs s)(i \<mapsto> c'), cs_mem := m\<rparr>))
      | _ \<Rightarrow> None)"
| "exec_op K Z (Delete i) s =
     (case cs_objs s i of
        None \<Rightarrow> None
      | Some c \<Rightarrow> Some (s\<lparr>cs_objs := (cs_objs s)(i := None),
          cs_dead := cs_dead s @ [(cred_password c, length (handed (cs_mem s)))],
          cs_mem := destroy_Credentials Z c (cs_mem s)\<rparr>))"

fun run_ops :: "string_impl \<Rightarrow> sodium_memzero \<Rightarrow> cred_op list \<Rightarrow> cred_sys \<Rightarrow> cred_sys option" where
  "run_ops K Z [] s = Some s"
| "run_ops K Z (a # as) s = Option.bind (exec_op K Z a s) (run_ops K Z as)"

definition no_credentials :: "memory \<Rightarrow> cred_sys" where
  "no_credentials m = \<lparr>cs_objs = Map.empty, cs_dead = [], cs_mem = m\<rparr>"

text \<open>The specification: objects are values, a user name and a password.\<close>

type_synonym cred_values = "nat \<rightharpoonup> bytes \<times> bytes"

fun value_op :: "cred_op \<Rightarrow> cred_values \<Rightarrow> cred_values option" where
  "value_op (New i u p) v = (if v i \<noteq> None then None else Some (v(i \<mapsto> (u, p))))"
| "value_op (Copy i j) v = (case (v i, v j) of (None, Some x) \<Rightarrow> Some (v(i \<mapsto> x)) | _ \<Rightarrow> None)"
| "value_op (Assign i j) v = (case (v i, v j) of (Some _, Some x) \<Rightarrow> Some (v(i \<mapsto> x)) | _ \<Rightarrow> None)"
| "value_op (Delete i) v = (if v i = None then None else Some (v(i := None)))"

fun run_values :: "cred_op list \<Rightarrow> cred_values \<Rightarrow> cred_values option" where
  "run_values [] v = Some v"
| "run_values (a # as) v = Option.bind (value_op a v) (run_values as)"

definition value_of :: "memory \<Rightarrow> Credentials \<Rightarrow> bytes \<times> bytes" where
  "value_of m c = (read_string m (cred_username c), read_string m (cred_password c))"

definition values_of :: "cred_sys \<Rightarrow> cred_values" where
  "values_of s = (\<lambda>i. map_option (value_of (cs_mem s)) (cs_objs s i))"

section \<open>Separation\<close>

text \<open>The buffer of a string, and what it means that it is one of the memory.\<close>

definition span :: "std_string \<Rightarrow> nat set" where
  "span s = region_cells (region s)"

definition string_ok :: "memory \<Rightarrow> std_string \<Rightarrow> bool" where
  "string_ok m s \<longleftrightarrow> str_size s \<le> str_cap s \<and> region s \<in> set (live_regions m)
     \<and> (\<forall>r\<in>set (live_regions m). r \<noteq> region s \<longrightarrow> region_cells r \<inter> span s = {})"

text \<open>A family of strings whose buffers do not overlap, and the bytes they hold.\<close>

definition separated :: "memory \<Rightarrow> ('k \<rightharpoonup> std_string) \<Rightarrow> bool" where
  "separated m R \<longleftrightarrow> (\<forall>k s. R k = Some s \<longrightarrow> string_ok m s)
     \<and> (\<forall>k l s t. R k = Some s \<and> R l = Some t \<and> k \<noteq> l \<longrightarrow> span s \<inter> span t = {})"

definition holds :: "memory \<Rightarrow> ('k \<rightharpoonup> std_string) \<Rightarrow> ('k \<rightharpoonup> bytes) \<Rightarrow> bool" where
  "holds m R V \<longleftrightarrow> separated m R \<and> (\<forall>k. V k = map_option (read_string m) (R k))"

text \<open>
  How every call changes the memory: it takes new regions, and changes nothing in the addresses that
  were not in use but for these regions.
\<close>

definition evolves :: "memory \<Rightarrow> memory \<Rightarrow> bool" where
  "evolves m m' \<longleftrightarrow> (\<exists>new. handed m' = new @ handed m
     \<and> used m' \<subseteq> used m \<union> \<Union> (region_cells ` set new)
     \<and> (\<forall>x. x \<notin> used m \<and> x \<notin> \<Union> (region_cells ` set new) \<longrightarrow> cells m' x = cells m x))"

text \<open>The cells of the regions handed out after the first \<open>k\<close>.\<close>

definition rehanded :: "memory \<Rightarrow> nat \<Rightarrow> nat set" where
  "rehanded m k = \<Union> (region_cells ` set (take (length (handed m) - k) (handed m)))"

text \<open>
  A string that was erased and given back when \<open>k\<close> regions had been handed out: each of its bytes is zero
  and in no region in use, unless it was handed out again.
\<close>

definition erased_unless_rehanded :: "memory \<Rightarrow> std_string \<times> nat \<Rightarrow> bool" where
  "erased_unless_rehanded m g \<longleftrightarrow> snd g \<le> length (handed m)
     \<and> (\<forall>x \<in> {str_data (fst g) ..< str_data (fst g) + str_size (fst g)}.
          x \<in> rehanded m (snd g) \<or> cells m x = 0 \<and> x \<notin> used m)"

lemma length_read_string [simp]: "length (read_string m s) = str_size s"
  by (simp add: read_string_def)

lemma span_iff: "x \<in> span s \<longleftrightarrow> str_data s \<le> x \<and> x \<le> str_data s + str_cap s"
  by (auto simp: span_def region_def region_cells_def)

lemma str_data_span: "str_data s \<in> span s"
  by (simp add: span_iff)

lemma span_used: "string_ok m s \<Longrightarrow> span s \<subseteq> used m"
  unfolding string_ok_def used_def span_def by blast

text \<open>A string whose buffer is untouched keeps its bytes.\<close>

lemma read_string_cong:
  assumes "str_size s \<le> str_cap s" and "\<And>x. x \<in> span s \<Longrightarrow> cells m x = cells m' x"
  shows "read_string m s = read_string m' s"
  unfolding read_string_def
  by (rule map_cong [OF refl], rule assms(2)) (use assms(1) in \<open>simp add: span_iff\<close>)

lemma separatedD:
  "separated m R \<Longrightarrow> R k = Some s \<Longrightarrow> string_ok m s"
  "separated m R \<Longrightarrow> R k = Some s \<Longrightarrow> R l = Some t \<Longrightarrow> k \<noteq> l \<Longrightarrow> span s \<inter> span t = {}"
  unfolding separated_def by blast+

lemma holdsD:
  "holds m R V \<Longrightarrow> separated m R"
  "holds m R V \<Longrightarrow> R k = Some s \<Longrightarrow> V k = Some (read_string m s)"
  "holds m R V \<Longrightarrow> R k = None \<Longrightarrow> V k = None"
  unfolding holds_def by simp_all

lemma separatedI:
  assumes "\<And>k s. R k = Some s \<Longrightarrow> string_ok m s"
    and "\<And>k l s t. R k = Some s \<Longrightarrow> R l = Some t \<Longrightarrow> k \<noteq> l \<Longrightarrow> span s \<inter> span t = {}"
  shows "separated m R"
  unfolding separated_def using assms by blast

text \<open>Giving the index \<open>k\<close> a string that is separate from the others, which keep their bytes.\<close>

lemma holds_upd:
  assumes h: "holds m R V" and s: "string_ok m' s" "read_string m' s = bs"
    and others: "\<And>l t. l \<noteq> k \<Longrightarrow> R l = Some t \<Longrightarrow>
      string_ok m' t \<and> span s \<inter> span t = {} \<and> read_string m' t = read_string m t"
  shows "holds m' (R(k \<mapsto> s)) (V(k \<mapsto> bs))"
proof -
  have "separated m' (R(k \<mapsto> s))"
  proof (rule separatedI)
    show "string_ok m' t" if "(R(k \<mapsto> s)) l = Some t" for l t
      using that s(1) others by (cases "l = k") auto
    show "span t \<inter> span t' = {}" if "(R(k \<mapsto> s)) l = Some t" "(R(k \<mapsto> s)) l' = Some t'" "l \<noteq> l'" for l l' t t'
    proof (cases "l = k \<or> l' = k")
      case True
      with that others [of l' t'] others [of l t] show ?thesis by (auto split: if_splits)
    next
      case False
      with that separatedD(2) [OF holdsD(1) [OF h]] show ?thesis by simp
    qed
  qed
  moreover have "(V(k \<mapsto> bs)) l = map_option (read_string m') ((R(k \<mapsto> s)) l)" for l
    using h others [of l] s(2) by (cases "R l") (simp_all add: holds_def)
  ultimately show ?thesis by (simp add: holds_def)
qed

subsection \<open>The memory evolves\<close>

lemma evolves_refl [simp]: "evolves m m"
  unfolding evolves_def by (rule exI [of _ "[]"]) simp

lemma evolves_trans:
  assumes "evolves m m1" and "evolves m1 m2"
  shows "evolves m m2"
proof -
  from assms obtain n1 n2 where 1: "handed m1 = n1 @ handed m" "used m1 \<subseteq> used m \<union> \<Union> (region_cells ` set n1)"
      "\<forall>x. x \<notin> used m \<and> x \<notin> \<Union> (region_cells ` set n1) \<longrightarrow> cells m1 x = cells m x"
    and 2: "handed m2 = n2 @ handed m1" "used m2 \<subseteq> used m1 \<union> \<Union> (region_cells ` set n2)"
      "\<forall>x. x \<notin> used m1 \<and> x \<notin> \<Union> (region_cells ` set n2) \<longrightarrow> cells m2 x = cells m1 x"
    unfolding evolves_def by blast
  have u: "\<Union> (region_cells ` set (n2 @ n1)) = \<Union> (region_cells ` set n2) \<union> \<Union> (region_cells ` set n1)"
    by (simp add: Un_Union_image image_Un)
  show ?thesis unfolding evolves_def
  proof (intro exI [of _ "n2 @ n1"] conjI allI impI, unfold u)
    show "handed m2 = (n2 @ n1) @ handed m" using 1(1) 2(1) by simp
    show "used m2 \<subseteq> used m \<union> (\<Union> (region_cells ` set n2) \<union> \<Union> (region_cells ` set n1))" using 1(2) 2(2) by blast
    fix x assume x: "x \<notin> used m \<and> x \<notin> \<Union> (region_cells ` set n2) \<union> \<Union> (region_cells ` set n1)"
    then have "x \<notin> used m1" using 1(2) by blast
    with x 1(3) 2(3) show "cells m2 x = cells m x" by simp
  qed
qed

lemma erased_evolves:
  assumes "erased_unless_rehanded m g" and "evolves m m'"
  shows "erased_unless_rehanded m' g"
proof -
  from assms(2) obtain new where n: "handed m' = new @ handed m" "used m' \<subseteq> used m \<union> \<Union> (region_cells ` set new)"
      "\<forall>x. x \<notin> used m \<and> x \<notin> \<Union> (region_cells ` set new) \<longrightarrow> cells m' x = cells m x"
    unfolding evolves_def by blast
  have k: "snd g \<le> length (handed m)" using assms(1) by (simp add: erased_unless_rehanded_def)
  then have r: "rehanded m' (snd g) = \<Union> (region_cells ` set new) \<union> rehanded m (snd g)"
    by (simp add: rehanded_def n(1) image_Un)
  show ?thesis unfolding erased_unless_rehanded_def
  proof (intro conjI ballI)
    show "snd g \<le> length (handed m')" using k n(1) by simp
    fix x assume x: "x \<in> {str_data (fst g) ..< str_data (fst g) + str_size (fst g)}"
    show "x \<in> rehanded m' (snd g) \<or> cells m' x = 0 \<and> x \<notin> used m'"
    proof (cases "x \<in> rehanded m' (snd g)")
      case False
      with x r assms(1) have "cells m x = 0" "x \<notin> used m" by (auto simp: erased_unless_rehanded_def)
      with False r n(2,3) show ?thesis by auto
    qed simp
  qed
qed

lemma evolves_handed: "evolves m m' \<Longrightarrow> length (handed m) \<le> length (handed m')"
  unfolding evolves_def by auto

subsection \<open>New strings, and strings given back\<close>

lemma new_string_spec:
  assumes "impl_ok K" and "new_string K bs m = (s, m')"
  shows "read_string m' s = bs" and "string_ok m' s" and "evolves m m'" and "span s \<inter> used m = {}"
    and "str_size s = length bs" and "live_regions m' = region s # live_regions m"
    and "\<And>x. x \<notin> span s \<Longrightarrow> cells m' x = cells m x"
proof -
  let ?c = "capacity_for K (length bs)"
  let ?a = "allocate K m (Suc ?c)"
  have c: "length bs \<le> ?c" using assms(1) by (simp add: impl_ok_def)
  from assms(2) have s: "s = \<lparr>str_data = ?a, str_size = length bs, str_cap = ?c\<rparr>"
    and m': "m' = m\<lparr>cells := write_bytes ?a (bs @ [0]) (cells m),
      live_regions := (?a, Suc ?c) # live_regions m, handed := (?a, Suc ?c) # handed m\<rparr>"
    by (auto simp: new_string_def Let_def)
  have reg: "region s = (?a, Suc ?c)" by (simp add: s region_def)
  show "read_string m' s = bs"
    by (auto simp: s m' read_string_def write_bytes_def nth_append intro!: nth_equalityI)
  show new: "span s \<inter> used m = {}" using assms(1) by (simp add: span_def reg impl_ok_def)
  show "str_size s = length bs" and l: "live_regions m' = region s # live_regions m"
    by (simp_all add: s m' region_def)
  show w: "cells m' x = cells m x" if "x \<notin> span s" for x
    using that c by (auto simp: span_iff s m' write_bytes_def)
  have "region_cells r \<inter> span s = {}" if "r \<in> set (live_regions m)" for r
    using new that unfolding used_def by blast
  then show "string_ok m' s" using c by (auto simp: string_ok_def l) (simp_all add: s)
  have "handed m' = [region s] @ handed m" by (simp add: m' reg)
  moreover have "used m' = span s \<union> used m" by (simp add: used_def l span_def)
  ultimately show "evolves m m'"
    unfolding evolves_def using w by (intro exI [of _ "[region s]"]) (simp add: span_def)
qed

lemma new_string_keeps:
  assumes "impl_ok K" and "new_string K bs m = (s, m')" and "string_ok m t"
  shows "string_ok m' t \<and> span s \<inter> span t = {} \<and> read_string m' t = read_string m t"
proof -
  note n = new_string_spec [OF assms(1,2)]
  have d: "span s \<inter> span t = {}" using n(4) span_used [OF assms(3)] by blast
  have "region_cells (region s) \<inter> span t = {}" using d by (simp add: span_def)
  with assms(3) have "string_ok m' t" by (simp add: string_ok_def n(6))
  moreover have "read_string m' t = read_string m t"
    using assms(3) d n(7) by (intro read_string_cong) (auto simp: string_ok_def)
  ultimately show ?thesis using d by blast
qed

lemma holds_new:
  assumes "impl_ok K" and "new_string K bs m = (s, m')" and "holds m R V"
  shows "holds m' (R(k \<mapsto> s)) (V(k \<mapsto> bs))"
  using new_string_spec(1,2) [OF assms(1,2)] new_string_keeps [OF assms(1,2)] separatedD(1) [OF holdsD(1) [OF assms(3)]]
  by (intro holds_upd [OF assms(3)]) blast+

lemma region_neq: "span s \<inter> span t = {} \<Longrightarrow> region t \<noteq> region s"
  using str_data_span [of s] by (auto simp: span_def)

lemma free_string_simps [simp]:
  "cells (free_string s m) = cells m" "handed (free_string s m) = handed m"
  "read_string (free_string s m) = read_string m"
  by (simp_all add: free_string_def read_string_def fun_eq_iff)

lemma string_ok_free: "string_ok m t \<Longrightarrow> span s \<inter> span t = {} \<Longrightarrow> string_ok (free_string s m) t"
  using region_neq [of s t] by (auto simp: string_ok_def free_string_def)

lemma used_free: "used (free_string s m) \<subseteq> used m"
  by (auto simp: used_def free_string_def)

lemma used_freed: "string_ok m s \<Longrightarrow> used (free_string s m) \<inter> span s = {}"
  by (auto simp: used_def free_string_def string_ok_def)

lemma evolves_free: "evolves m (free_string s m)"
  unfolding evolves_def using used_free [of s m] by (intro exI [of _ "[]"]) simp

lemma holds_free:
  assumes h: "holds m R V" and s: "R k = Some s"
  shows "holds (free_string s m) (R(k := None)) (V(k := None))"
proof -
  note sep = holdsD(1) [OF h]
  have "separated (free_string s m) (R(k := None))"
  proof (rule separatedI)
    show "string_ok (free_string s m) t" if "(R(k := None)) l = Some t" for l t
    proof (cases "l = k")
      case False
      with that have "R l = Some t" "k \<noteq> l" by simp_all
      then show ?thesis using separatedD(1) [OF sep] separatedD(2) [OF sep s] by (intro string_ok_free) blast+
    qed (use that in simp)
    show "span t \<inter> span t' = {}" if "(R(k := None)) l = Some t" "(R(k := None)) l' = Some t'" "l \<noteq> l'" for l l' t t'
      using that separatedD(2) [OF sep, of l t l' t'] by (simp split: if_splits)
  qed
  with h show ?thesis by (simp add: holds_def)
qed

subsection \<open>Assignment\<close>

text \<open>An assignment stays in the buffer of the target, or makes a new string and gives the old one back.\<close>

lemma assign_string_cases:
  assumes "impl_ok K" and "string_ok m this" and "assign_string K this other m = (s, m')"
  obtains (reused) "region s = region this" "read_string m' s = read_string m other" "str_size s \<le> str_cap s"
      "live_regions m' = live_regions m" "handed m' = handed m"
      "m' = m\<lparr>cells := write_bytes (str_data this) (read_string m other @ [0]) (cells m)\<rparr>"
      "\<And>x. x \<notin> span this \<Longrightarrow> cells m' x = cells m x" "str_size s = str_size other" "str_data s = str_data this"
  | (fresh) m1 where "new_string K (read_string m other) m = (s, m1)" "m' = free_string this m1"
proof (cases "reuses K (str_cap this) (str_size other)")
  case True
  then have le: "str_size other \<le> str_cap this" using assms(1) by (simp add: impl_ok_def)
  from True assms(3) have s: "s = this\<lparr>str_size := str_size other\<rparr>"
    and m': "m' = m\<lparr>cells := write_bytes (str_data this) (read_string m other @ [0]) (cells m)\<rparr>"
    by (auto simp: assign_string_def Let_def)
  have "read_string m' s = read_string m other"
    by (rule nth_equalityI) (auto simp: s m' read_string_def write_bytes_def nth_append)
  moreover have "cells m' x = cells m x" if "x \<notin> span this" for x
    using that le by (auto simp: m' span_iff write_bytes_def)
  ultimately show ?thesis using reused m' le by (simp add: s region_def)
next
  case False
  obtain s1 m1 where "new_string K (read_string m other) m = (s1, m1)" by fastforce
  with False assms(3) show ?thesis by (intro fresh [of m1]) (auto simp: assign_string_def Let_def)
qed

lemma holds_assign:
  assumes K: "impl_ok K" and h: "holds m R V" and R: "R k = Some this"
    and a: "assign_string K this other m = (s, m')"
  shows "holds m' (R(k \<mapsto> s)) (V(k \<mapsto> read_string m other)) \<and> evolves m m'"
proof -
  note sep = holdsD(1) [OF h]
  note ok = separatedD(1) [OF sep]
  have dis: "span this \<inter> span t = {}" if "l \<noteq> k" "R l = Some t" for l t
    using separatedD(2) [OF sep R that(2)] that(1) by blast
  from K ok [OF R] a show ?thesis
  proof (cases rule: assign_string_cases)
    case reused
    have sp: "span s = span this" by (simp add: span_def reused(1))
    have s: "string_ok m' s" using ok [OF R] reused(3) by (simp add: string_ok_def reused(1,4) sp)
    have "holds m' (R(k \<mapsto> s)) (V(k \<mapsto> read_string m other))"
    proof (rule holds_upd [OF h s reused(2)])
      fix l t assume l: "l \<noteq> k" "R l = Some t"
      have "string_ok m' t" using ok [OF l(2)] by (simp add: string_ok_def reused(4))
      moreover have "read_string m' t = read_string m t"
        using ok [OF l(2)] dis [OF l] reused(7) by (intro read_string_cong) (auto simp: string_ok_def)
      ultimately show "string_ok m' t \<and> span s \<inter> span t = {} \<and> read_string m' t = read_string m t"
        using dis [OF l] sp by simp
    qed
    moreover have "evolves m m'"
      unfolding evolves_def using reused(4,5,7) span_used [OF ok [OF R]]
      by (intro exI [of _ "[]"]) (auto simp: used_def)
    ultimately show ?thesis ..
  next
    case (fresh m1)
    note n = new_string_spec [OF K fresh(1)] and keeps = new_string_keeps [OF K fresh(1)]
    have "holds m' (R(k \<mapsto> s)) (V(k \<mapsto> read_string m other))"
      unfolding fresh(2)
    proof (rule holds_upd [OF h])
      show "string_ok (free_string this m1) s"
        using keeps [OF ok [OF R]] by (intro string_ok_free [OF n(2)]) (simp add: Int_commute)
      show "read_string (free_string this m1) s = read_string m other" using n(1) by simp
    next
      fix l t assume l: "l \<noteq> k" "R l = Some t"
      show "string_ok (free_string this m1) t \<and> span s \<inter> span t = {}
          \<and> read_string (free_string this m1) t = read_string m t"
        using keeps [OF ok [OF l(2)]] dis [OF l] string_ok_free by simp
    qed
    moreover have "evolves m m'" unfolding fresh(2) by (rule evolves_trans [OF n(3) evolves_free])
    ultimately show ?thesis ..
  qed
qed

subsection \<open>The destructor\<close>

lemma destroy_evolves:
  assumes Z: "memzero_documented Z" and ok: "string_ok m (cred_password c)" "string_ok m (cred_username c)"
    and dis: "span (cred_username c) \<inter> span (cred_password c) = {}"
  shows "evolves m (destroy_Credentials Z c m)"
    and "erased_unless_rehanded (destroy_Credentials Z c m) (cred_password c, length (handed m))"
    and "\<And>x. x \<notin> span (cred_password c) \<Longrightarrow> cells (destroy_Credentials Z c m) x = cells m x"
proof -
  let ?p = "cred_password c"
  define m1 where "m1 = m\<lparr>cells := Z (str_data ?p) (str_size ?p) (cells m)\<rparr>"
  have d: "destroy_Credentials Z c m = free_string (cred_username c) (free_string ?p m1)"
    by (simp add: destroy_Credentials_def m1_def)
  have z: "cells m1 x = (if str_data ?p \<le> x \<and> x < str_data ?p + str_size ?p then 0 else cells m x)" for x
    using Z by (simp add: m1_def memzero_documented_def)
  have sz: "str_size ?p \<le> str_cap ?p" using ok(1) by (simp add: string_ok_def)
  have w: "cells m1 x = cells m x" if "x \<notin> span ?p" for x using that sz by (auto simp: z span_iff)
  then show "cells (destroy_Credentials Z c m) x = cells m x" if "x \<notin> span ?p" for x
    using that by (simp add: d)
  have l1: "live_regions m1 = live_regions m" and h1: "handed m1 = handed m" by (simp_all add: m1_def)
  have "evolves m m1"
    unfolding evolves_def using l1 h1 w span_used [OF ok(1)] by (intro exI [of _ "[]"]) (auto simp: used_def)
  then show "evolves m (destroy_Credentials Z c m)"
    unfolding d using evolves_free evolves_trans by blast
  have "string_ok m1 ?p" using ok(1) by (simp add: string_ok_def l1)
  then have "used (destroy_Credentials Z c m) \<inter> span ?p = {}"
    unfolding d using used_freed [of m1 ?p] used_free [of "cred_username c" "free_string ?p m1"] by blast
  moreover have "x \<in> span ?p" if "str_data ?p \<le> x" "x < str_data ?p + str_size ?p" for x
    using that sz by (simp add: span_iff)
  ultimately show "erased_unless_rehanded (destroy_Credentials Z c m) (?p, length (handed m))"
    by (auto simp: erased_unless_rehanded_def d h1 z)
qed

lemma handed_destroy [simp]: "handed (destroy_Credentials Z c m) = handed m"
  by (simp add: destroy_Credentials_def Let_def)

lemma holds_destroy:
  assumes Z: "memzero_documented Z" and h: "holds m R V" and kl: "k \<noteq> l"
    and u: "R k = Some (cred_username c)" and p: "R l = Some (cred_password c)"
  shows "holds (destroy_Credentials Z c m) (R(l := None, k := None)) (V(l := None, k := None))"
proof -
  let ?p = "cred_password c"
  note sep = holdsD(1) [OF h]
  define m1 where "m1 = m\<lparr>cells := Z (str_data ?p) (str_size ?p) (cells m)\<rparr>"
  have l1: "live_regions m1 = live_regions m" by (simp add: m1_def)
  have ok: "string_ok m1 t" if "R j = Some t" for j t
    using separatedD(1) [OF sep that] by (simp add: string_ok_def l1)
  have sz: "str_size ?p \<le> str_cap ?p" using ok [OF p] by (simp add: string_ok_def)
  have w: "cells m1 x = cells m x" if "x \<notin> span ?p" for x
    using that sz Z by (auto simp: m1_def memzero_documented_def span_iff)
  have "holds m1 (R(l \<mapsto> ?p)) (V(l \<mapsto> read_string m1 ?p))"
  proof (rule holds_upd [OF h ok [OF p] refl])
    fix j t assume j: "j \<noteq> l" "R j = Some t"
    have "span ?p \<inter> span t = {}" using separatedD(2) [OF sep p j(2)] j(1) by blast
    with ok [OF j(2)] w show "string_ok m1 t \<and> span ?p \<inter> span t = {} \<and> read_string m1 t = read_string m t"
      using read_string_cong [of t m1 m] by (auto simp: string_ok_def)
  qed
  then have "holds (free_string ?p m1) (R(l := None)) (V(l := None))"
    using holds_free [of m1 "R(l \<mapsto> ?p)" "V(l \<mapsto> read_string m1 ?p)" l ?p] by (simp only: fun_upd_upd fun_upd_same)
  with u kl have "holds (free_string (cred_username c) (free_string ?p m1)) (R(l := None, k := None)) (V(l := None, k := None))"
    using holds_free [of _ "R(l := None)" _ k "cred_username c"] by simp
  then show ?thesis by (simp add: destroy_Credentials_def m1_def)
qed

section \<open>The invariant of a program\<close>

text \<open>The strings that matter: user names and passwords, and those of the caller of a constructor.\<close>

datatype slot = User nat | Pass nat | Arg_User | Arg_Pass

fun regions :: "cred_sys \<Rightarrow> slot \<Rightarrow> std_string option" where
  "regions s (User i) = map_option cred_username (cs_objs s i)"
| "regions s (Pass i) = map_option cred_password (cs_objs s i)"
| "regions s _ = None"

fun slots_of :: "cred_values \<Rightarrow> slot \<Rightarrow> bytes option" where
  "slots_of v (User i) = map_option fst (v i)"
| "slots_of v (Pass i) = map_option snd (v i)"
| "slots_of v _ = None"

definition cred_inv :: "cred_sys \<Rightarrow> bool" where
  "cred_inv s \<longleftrightarrow> separated (cs_mem s) (regions s) \<and> (\<forall>g \<in> set (cs_dead s). erased_unless_rehanded (cs_mem s) g)"

lemma regions_upd:
  "regions (s\<lparr>cs_objs := (cs_objs s)(i \<mapsto> c), cs_mem := m\<rparr>)
     = (regions s)(User i \<mapsto> cred_username c, Pass i \<mapsto> cred_password c)"
  "slots_of (v(i \<mapsto> up)) = (slots_of v)(User i \<mapsto> fst up, Pass i \<mapsto> snd up)"
proof -
  show "slots_of (v(i \<mapsto> up)) = (slots_of v)(User i \<mapsto> fst up, Pass i \<mapsto> snd up)"
    by (rule ext) (case_tac x; simp)
  show "regions (s\<lparr>cs_objs := (cs_objs s)(i \<mapsto> c), cs_mem := m\<rparr>)
     = (regions s)(User i \<mapsto> cred_username c, Pass i \<mapsto> cred_password c)"
    by (rule ext) (case_tac x; simp)
qed

lemma regions_del:
  "regions (s\<lparr>cs_objs := (cs_objs s)(i := None), cs_dead := ds, cs_mem := m\<rparr>) = (regions s)(Pass i := None, User i := None)"
  "slots_of (v(i := None)) = (slots_of v)(Pass i := None, User i := None)"
proof -
  show "slots_of (v(i := None)) = (slots_of v)(Pass i := None, User i := None)"
    by (rule ext) (case_tac x; simp)
  show "regions (s\<lparr>cs_objs := (cs_objs s)(i := None), cs_dead := ds, cs_mem := m\<rparr>) = (regions s)(Pass i := None, User i := None)"
    by (rule ext) (case_tac x; simp)
qed

text \<open>The values are what the strings hold.\<close>

lemma cred_inv_holds: "cred_inv s \<Longrightarrow> holds (cs_mem s) (regions s) (slots_of (values_of s))"
  unfolding holds_def
proof (intro conjI allI)
  fix k show "slots_of (values_of s) k = map_option (read_string (cs_mem s)) (regions s k)"
    by (cases k) (simp_all add: values_of_def value_of_def option.map_comp comp_def)
qed (simp add: cred_inv_def)

lemma holds_values:
  assumes "holds (cs_mem s) (regions s) (slots_of v)"
  shows "values_of s = v"
proof
  fix i
  have "map_option fst (v i) = map_option (read_string (cs_mem s)) (map_option cred_username (cs_objs s i))"
    and "map_option snd (v i) = map_option (read_string (cs_mem s)) (map_option cred_password (cs_objs s i))"
    using assms unfolding holds_def by (metis regions.simps(1) slots_of.simps(1), metis regions.simps(2) slots_of.simps(2))
  then show "values_of s i = v i"
    by (cases "v i"; cases "cs_objs s i") (auto simp: values_of_def value_of_def prod_eq_iff)
qed

lemma cred_invI:
  assumes "cred_inv s" and "holds (cs_mem t) (regions t) (slots_of v)" and "evolves (cs_mem s) (cs_mem t)"
    and "\<And>g. g \<in> set (cs_dead t) \<Longrightarrow> g \<in> set (cs_dead s) \<or> erased_unless_rehanded (cs_mem t) g"
  shows "cred_inv t \<and> values_of t = v"
proof -
  have "erased_unless_rehanded (cs_mem t) g" if "g \<in> set (cs_dead t)" for g
    using assms(1,4) that erased_evolves [OF _ assms(3)] unfolding cred_inv_def by blast
  then show ?thesis using holds_values [OF assms(2)] holdsD(1) [OF assms(2)] by (simp add: cred_inv_def)
qed

text \<open>The constructor, from two strings of the family.\<close>

lemma holds_make:
  assumes K: "impl_ok K" and h: "holds m R V" and u: "R k = Some u" and p: "R l = Some p" and l: "l \<noteq> User i"
    and mk: "mk_Credentials K u p m = (c, m')"
  shows "holds m' (R(User i \<mapsto> cred_username c, Pass i \<mapsto> cred_password c))
      (V(User i \<mapsto> read_string m u, Pass i \<mapsto> read_string m p)) \<and> evolves m m'"
proof -
  obtain u' m1 where a: "new_string K (read_string m u) m = (u', m1)" by fastforce
  obtain p' m2 where b: "new_string K (read_string m1 p) m1 = (p', m2)" by fastforce
  from mk a b have c: "cred_username c = u'" "cred_password c = p'" and m': "m' = m2"
    by (auto simp: mk_Credentials_def copy_string_def)
  note h1 = holds_new [OF K a h, of "User i"]
  have "read_string m1 p = read_string m p"
    using new_string_keeps [OF K a] separatedD(1) [OF holdsD(1) [OF h] p] by blast
  with holds_new [OF K b h1, of "Pass i"] new_string_spec(3) [OF K a] new_string_spec(3) [OF K b] show ?thesis
    using evolves_trans by (auto simp: c m')
qed

section \<open>One operation, and a program\<close>

lemma values_of_None: "values_of s i = None \<longleftrightarrow> cs_objs s i = None"
  by (simp add: values_of_def)

lemma values_of_at: "cs_objs s i = Some c \<Longrightarrow> values_of s i = Some (value_of (cs_mem s) c)"
  by (simp add: values_of_def)

text \<open>Each operation, from a state of the invariant.\<close>

lemma exec_New:
  assumes K: "impl_ok K" and inv: "cred_inv s" and i: "cs_objs s i = None" and e: "exec_op K Z (New i u p) s = Some t"
  shows "cred_inv t \<and> values_of t = (values_of s)(i \<mapsto> (u, p))"
proof -
  obtain us m1 where a1: "new_string K u (cs_mem s) = (us, m1)" by fastforce
  obtain ps m2 where a2: "new_string K p m1 = (ps, m2)" by fastforce
  obtain c m3 where mk: "mk_Credentials K us ps m2 = (c, m3)" by fastforce
  define m4 where "m4 = free_string us (free_string ps m3)"
  have t: "t = s\<lparr>cs_objs := (cs_objs s)(i \<mapsto> c), cs_mem := m4\<rparr>"
    using e i by (simp add: a1 a2 mk m4_def)
  let ?R = "regions s" and ?V = "slots_of (values_of s)"
  note h1 = holds_new [OF K a1 cred_inv_holds [OF inv], of Arg_User]
  note h2 = holds_new [OF K a2 h1, of Arg_Pass]
  have r: "read_string m2 us = u" "read_string m2 ps = p"
    using holdsD(2) [OF h2, of Arg_User] holdsD(2) [OF h2, of Arg_Pass] by simp_all
  have h3: "holds m3 (?R(Arg_User \<mapsto> us, Arg_Pass \<mapsto> ps, User i \<mapsto> cred_username c, Pass i \<mapsto> cred_password c))
      (?V(Arg_User \<mapsto> u, Arg_Pass \<mapsto> p, User i \<mapsto> u, Pass i \<mapsto> p))" and ev: "evolves m2 m3"
    using holds_make [OF K h2 _ _ _ mk, of Arg_User Arg_Pass i] by (simp_all add: r)
  have "holds m4 ((?R(Arg_User \<mapsto> us, Arg_Pass \<mapsto> ps, User i \<mapsto> cred_username c, Pass i \<mapsto> cred_password c))(Arg_Pass := None, Arg_User := None))
      ((?V(Arg_User \<mapsto> u, Arg_Pass \<mapsto> p, User i \<mapsto> u, Pass i \<mapsto> p))(Arg_Pass := None, Arg_User := None))"
    unfolding m4_def by (intro holds_free) (use h3 in simp_all)
  moreover have "(?R(Arg_User \<mapsto> us, Arg_Pass \<mapsto> ps, User i \<mapsto> cred_username c, Pass i \<mapsto> cred_password c))(Arg_Pass := None, Arg_User := None)
      = regions t"
    unfolding t regions_upd by (rule ext) (case_tac x; simp)
  moreover have "(?V(Arg_User \<mapsto> u, Arg_Pass \<mapsto> p, User i \<mapsto> u, Pass i \<mapsto> p))(Arg_Pass := None, Arg_User := None)
      = slots_of ((values_of s)(i \<mapsto> (u, p)))"
    unfolding regions_upd by (rule ext) (case_tac x; simp)
  ultimately have "holds (cs_mem t) (regions t) (slots_of ((values_of s)(i \<mapsto> (u, p))))" by (simp add: t)
  moreover have "evolves (cs_mem s) (cs_mem t)"
    using evolves_trans [OF evolves_trans [OF new_string_spec(3) [OF K a1] new_string_spec(3) [OF K a2]]
        evolves_trans [OF ev evolves_trans [OF evolves_free evolves_free]], of us ps]
    by (simp add: t m4_def)
  ultimately show ?thesis by (intro cred_invI [OF inv]) (simp_all add: t)
qed

lemma exec_Copy:
  assumes K: "impl_ok K" and inv: "cred_inv s" and i: "cs_objs s i = None" and d: "cs_objs s j = Some d"
    and e: "exec_op K Z (Copy i j) s = Some t"
  shows "cred_inv t \<and> values_of t = (values_of s)(i \<mapsto> value_of (cs_mem s) d)"
proof -
  obtain c m where mk: "mk_Credentials K (cred_username d) (cred_password d) (cs_mem s) = (c, m)" by fastforce
  have t: "t = s\<lparr>cs_objs := (cs_objs s)(i \<mapsto> c), cs_mem := m\<rparr>"
    using e i d by (simp add: copy_Credentials_def mk)
  have "holds (cs_mem t) (regions t) (slots_of ((values_of s)(i \<mapsto> value_of (cs_mem s) d)))
      \<and> evolves (cs_mem s) (cs_mem t)"
    using holds_make [OF K cred_inv_holds [OF inv] _ _ _ mk, of "User j" "Pass j" i] d
    unfolding t regions_upd by (simp add: value_of_def)
  then show ?thesis by (intro cred_invI [OF inv]) (simp_all add: t)
qed

lemma assign_holds:
  assumes K: "impl_ok K" and inv: "cred_inv s" and ij: "i \<noteq> j"
    and c: "cs_objs s i = Some c" and d: "cs_objs s j = Some d"
    and as: "assign_Credentials K False c d (cs_mem s) = (c', m)"
  shows "holds m ((regions s)(User i \<mapsto> cred_username c', Pass i \<mapsto> cred_password c'))
      ((slots_of (values_of s))(User i \<mapsto> read_string (cs_mem s) (cred_username d),
         Pass i \<mapsto> read_string (cs_mem s) (cred_password d))) \<and> evolves (cs_mem s) m"
proof -
  obtain u m2 where a: "assign_string K (cred_username c) (cred_username d) (cs_mem s) = (u, m2)" by fastforce
  obtain p m3 where b: "assign_string K (cred_password c) (cred_password d) m2 = (p, m3)" by fastforce
  from as a b have c': "cred_username c' = u" "cred_password c' = p" and m: "m = m3"
    by (auto simp: assign_Credentials_def)
  note h = cred_inv_holds [OF inv]
  have h2: "holds m2 ((regions s)(User i \<mapsto> u)) ((slots_of (values_of s))(User i \<mapsto> read_string (cs_mem s) (cred_username d)))"
    and e2: "evolves (cs_mem s) m2"
    using holds_assign [OF K h _ a, of "User i"] c by simp_all
  have "read_string m2 (cred_password d) = read_string (cs_mem s) (cred_password d)"
    using holdsD(2) [OF h, of "Pass j"] holdsD(2) [OF h2, of "Pass j"] d ij by auto
  with holds_assign [OF K h2 _ b, of "Pass i"] c e2 show ?thesis
    using evolves_trans by (auto simp: c' m)
qed

lemma exec_Assign:
  assumes K: "impl_ok K" and inv: "cred_inv s" and ij: "i \<noteq> j"
    and c: "cs_objs s i = Some c" and d: "cs_objs s j = Some d" and e: "exec_op K Z (Assign i j) s = Some t"
  shows "cred_inv t \<and> values_of t = (values_of s)(i \<mapsto> value_of (cs_mem s) d)"
proof -
  obtain c' m where as: "assign_Credentials K False c d (cs_mem s) = (c', m)" by fastforce
  have t: "t = s\<lparr>cs_objs := (cs_objs s)(i \<mapsto> c'), cs_mem := m\<rparr>"
    using e c d ij by (simp add: as)
  have "holds (cs_mem t) (regions t) (slots_of ((values_of s)(i \<mapsto> value_of (cs_mem s) d)))
      \<and> evolves (cs_mem s) (cs_mem t)"
    using assign_holds [OF K inv ij c d as] unfolding t regions_upd by (simp add: value_of_def)
  then show ?thesis by (intro cred_invI [OF inv]) (simp_all add: t)
qed

lemma cred_strings:
  assumes "separated m R" and "R (User i) = Some (cred_username c)" and "R (Pass i) = Some (cred_password c)"
  shows "string_ok m (cred_username c)" and "string_ok m (cred_password c)"
    and "span (cred_username c) \<inter> span (cred_password c) = {}"
  using separatedD(1) [OF assms(1,2)] separatedD(1) [OF assms(1,3)] separatedD(2) [OF assms] by simp_all

lemma exec_Delete:
  assumes Z: "memzero_documented Z" and inv: "cred_inv s" and c: "cs_objs s i = Some c"
    and e: "exec_op K Z (Delete i) s = Some t"
  shows "cred_inv t \<and> values_of t = (values_of s)(i := None)"
proof -
  have t: "t = s\<lparr>cs_objs := (cs_objs s)(i := None),
      cs_dead := cs_dead s @ [(cred_password c, length (handed (cs_mem s)))],
      cs_mem := destroy_Credentials Z c (cs_mem s)\<rparr>"
    using e c by simp
  note h = cred_inv_holds [OF inv]
  note str = cred_strings [OF holdsD(1) [OF h], of i c]
  have "holds (cs_mem t) (regions t) (slots_of ((values_of s)(i := None)))"
    using holds_destroy [OF Z h, of "User i" "Pass i" c] c unfolding t regions_del by simp
  with destroy_evolves [OF Z str(2,1,3)] c show ?thesis
    by (intro cred_invI [OF inv]) (auto simp: t)
qed

lemma exec_op_refines:
  assumes K: "impl_ok K" and Z: "memzero_documented Z" and inv: "cred_inv s"
  shows "map_option values_of (exec_op K Z a s) = value_op a (values_of s)
     \<and> (\<forall>t. exec_op K Z a s = Some t \<longrightarrow> cred_inv t)"
proof (cases a)
  case (New i u p)
  show ?thesis
  proof (cases "cs_objs s i")
    case None
    then obtain t where e: "exec_op K Z (New i u p) s = Some t" by (simp add: split_beta)
    from exec_New [OF K inv None e] e None New show ?thesis by (simp add: values_of_None)
  qed (use New in \<open>simp add: values_of_None\<close>)
next
  case (Copy i j)
  show ?thesis
  proof (cases "cs_objs s i = None \<and> cs_objs s j \<noteq> None")
    case True
    then obtain d where i: "cs_objs s i = None" and d: "cs_objs s j = Some d" by auto
    then obtain t where e: "exec_op K Z (Copy i j) s = Some t" by (simp add: split_beta)
    from exec_Copy [OF K inv i d e] e i Copy show ?thesis
      by (simp add: values_of_at [OF d] values_of_None [THEN iffD2, OF i])
  qed (use Copy in \<open>auto simp: values_of_def split: option.split\<close>)
next
  case (Assign i j)
  show ?thesis
  proof (cases "i \<noteq> j \<and> cs_objs s i \<noteq> None \<and> cs_objs s j \<noteq> None")
    case True
    then obtain c d where c: "cs_objs s i = Some c" and d: "cs_objs s j = Some d" and ij: "i \<noteq> j" by auto
    then obtain t where e: "exec_op K Z (Assign i j) s = Some t" by (simp add: split_beta)
    from exec_Assign [OF K inv ij c d e] e Assign show ?thesis
      by (simp add: values_of_at [OF c] values_of_at [OF d])
  next
    case False
    with Assign inv show ?thesis
      by (auto simp: assign_Credentials_def values_of_def fun_upd_idem map_upd_triv split: option.split)
  qed
next
  case (Delete i)
  show ?thesis
  proof (cases "cs_objs s i")
    case (Some c)
    then obtain t where e: "exec_op K Z (Delete i) s = Some t" by simp
    from exec_Delete [OF Z inv Some e] e Delete Some show ?thesis by (simp add: values_of_at)
  qed (use Delete in \<open>simp add: values_of_None\<close>)
qed

lemma run_ops_refines:
  assumes "impl_ok K" and "memzero_documented Z"
  shows "cred_inv s \<Longrightarrow> map_option values_of (run_ops K Z as s) = run_values as (values_of s)
     \<and> (\<forall>t. run_ops K Z as s = Some t \<longrightarrow> cred_inv t)"
proof (induction as arbitrary: s)
  case (Cons a as)
  note step = exec_op_refines [OF assms Cons.prems, of a]
  show ?case
  proof (cases "exec_op K Z a s")
    case None
    with step show ?thesis by (metis bind.simps(1) option.simps(3,8) run_ops.simps(2) run_values.simps(2))
  next
    case (Some t)
    with step have "value_op a (values_of s) = Some (values_of t)" "cred_inv t" by auto
    with Some Cons.IH show ?thesis by simp
  qed
qed simp

lemma cred_inv_none: "cred_inv (no_credentials m)"
proof -
  have "regions (no_credentials m) k = None" for k by (cases k) (simp_all add: no_credentials_def)
  then show ?thesis by (simp add: cred_inv_def separated_def) (simp add: no_credentials_def)
qed

lemma values_of_none: "values_of (no_credentials m) = Map.empty"
  by (simp add: values_of_def no_credentials_def)

lemma exec_op_dead: "exec_op K Z a s = Some t \<Longrightarrow> set (cs_dead s) \<subseteq> set (cs_dead t)"
  by (cases a) (auto simp: Let_def split: option.splits prod.splits if_splits)

lemma run_ops_dead: "run_ops K Z as s = Some t \<Longrightarrow> set (cs_dead s) \<subseteq> set (cs_dead t)"
proof (induction as arbitrary: s)
  case (Cons a as)
  then obtain u where "exec_op K Z a s = Some u" "run_ops K Z as u = Some t"
    by (auto simp: bind_eq_Some_conv)
  with Cons.IH exec_op_dead show ?case by blast
qed simp

lemma erased_reads_zero:
  assumes "erased_unless_rehanded m (s, length (handed m'))" and "handed m = handed m'"
  shows "read_string m s = replicate (str_size s) 0"
  using assms by (intro nth_equalityI) (auto simp: erased_unless_rehanded_def rehanded_def read_string_def)

text \<open>What an assignment leaves of the password it replaces.\<close>

lemma assign_string_outside:
  assumes "impl_ok K" and "string_ok m this" and "assign_string K this other m = (s, m')"
    and "x \<in> used m" and "x \<notin> span this"
  shows "cells m' x = cells m x"
  using assms(1-3)
proof (cases rule: assign_string_cases)
  case (fresh m1)
  from new_string_spec(4,7) [OF assms(1) fresh(1)] assms(4) show ?thesis by (auto simp: fresh(2))
qed (use assms(5) in simp)

lemma assign_then_destroy_leaves:
  assumes K: "impl_ok K" and Z: "memzero_documented Z" and inv: "cred_inv s" and ij: "i \<noteq> j"
    and c: "cs_objs s i = Some c" and d: "cs_objs s j = Some d"
    and as: "assign_Credentials K False c d (cs_mem s) = (c', m)"
    and k: "str_size (cred_password d) < k" "k \<le> str_cap (cred_password c)"
  shows "cells (destroy_Credentials Z c' m) (str_data (cred_password c) + k)
     = cells (cs_mem s) (str_data (cred_password c) + k)"
proof -
  let ?x = "str_data (cred_password c) + k"
  obtain u m2 where a: "assign_string K (cred_username c) (cred_username d) (cs_mem s) = (u, m2)" by fastforce
  obtain p m3 where b: "assign_string K (cred_password c) (cred_password d) m2 = (p, m3)" by fastforce
  from as a b have p: "cred_password c' = p" and m: "m = m3" by (auto simp: assign_Credentials_def)
  note h = cred_inv_holds [OF inv]
  note str = cred_strings [OF holdsD(1) [OF h], of i c]
  have ok: "string_ok (cs_mem s) (cred_username c)" "string_ok (cs_mem s) (cred_password c)"
    and dis: "span (cred_username c) \<inter> span (cred_password c) = {}"
    using str c by simp_all
  have x: "?x \<in> span (cred_password c)" using k by (simp add: span_iff)
  have "?x \<in> used (cs_mem s)" "?x \<notin> span (cred_username c)" using x span_used [OF ok(2)] dis by blast+
  from assign_string_outside [OF K ok(1) a this] have 2: "cells m2 ?x = cells (cs_mem s) ?x" .
  have h2: "holds m2 ((regions s)(User i \<mapsto> u)) ((slots_of (values_of s))(User i \<mapsto> read_string (cs_mem s) (cred_username d)))"
    using holds_assign [OF K h _ a, of "User i"] c by simp_all
  have ok2: "string_ok m2 (cred_password c)" using separatedD(1) [OF holdsD(1) [OF h2], of "Pass i"] c by simp
  have x2: "?x \<in> used m2" using x span_used [OF ok2] by blast
  have z: "cells (destroy_Credentials Z c' m) ?x
      = (if str_data p \<le> ?x \<and> ?x < str_data p + str_size p then 0 else cells m3 ?x)"
    using Z by (simp add: destroy_Credentials_def memzero_documented_def p m Let_def)
  from K ok2 b show ?thesis
  proof (cases rule: assign_string_cases)
    case reused
    with k 2 show ?thesis unfolding z by (simp add: write_bytes_def)
  next
    case (fresh m4)
    note n = new_string_spec [OF K fresh(1)]
    have "?x \<notin> span p" using n(4) x2 by blast
    moreover have "str_size p \<le> str_cap p" using n(2) by (simp add: string_ok_def)
    ultimately have "\<not> (str_data p \<le> ?x \<and> ?x < str_data p + str_size p)" by (auto simp: span_iff)
    then have "cells (destroy_Credentials Z c' m) ?x = cells m3 ?x" unfolding z by (rule if_not_P)
    with n(7) [OF \<open>?x \<notin> span p\<close>] 2 show ?thesis by (simp add: fresh(2))
  qed
qed

section \<open>Concrete inputs\<close>

definition sample_memzero :: sodium_memzero where
  "sample_memzero a n f = write_bytes a (replicate n 0) f"

lemma sample_memzero_documented: "memzero_documented sample_memzero"
  by (auto simp: memzero_documented_def sample_memzero_def write_bytes_def)

definition empty_memory :: memory where
  "empty_memory = \<lparr>cells = \<lambda>_. 0, live_regions = [], handed = []\<rparr>"

text \<open>Fifteen bytes at least, as in libstdc++; a new region is put after the last one in use.\<close>

definition sample_strings :: string_impl where
  "sample_strings = \<lparr>capacity_for = max 15, reuses = \<lambda>c n. n \<le> c,
     allocate = \<lambda>m n. foldr (\<lambda>r b. max (fst r + snd r) b) (live_regions m) 1\<rparr>"

lemma region_below: "r \<in> set rs \<Longrightarrow> fst r + snd r \<le> foldr (\<lambda>r b. max (fst r + snd r) b) rs (1::nat)"
  by (induction rs) auto

lemma sample_strings_ok: "impl_ok sample_strings"
proof -
  have "region_cells (foldr (\<lambda>r b. max (fst r + snd r) b) (live_regions m) 1, n) \<inter> used m = {}" for m n
    using region_below by (fastforce simp: used_def region_cells_def)
  then show ?thesis by (simp add: impl_ok_def sample_strings_def)
qed

text \<open>This allocator does reuse memory: the password of a second object is put where that of the first was.\<close>

lemma sample_memory_is_reused:
  "\<exists>s c t d. run_ops sample_strings sample_memzero [New 0 [7] [5, 6]] (no_credentials empty_memory) = Some s
     \<and> cs_objs s 0 = Some c \<and> run_ops sample_strings sample_memzero [Delete 0, New 0 [8] [9]] s = Some t
     \<and> cs_objs t 0 = Some d \<and> str_data (cred_password d) = str_data (cred_password c)"
  by (simp add: no_credentials_def empty_memory_def mk_Credentials_def copy_string_def new_string_def
      sample_strings_def free_string_def region_def destroy_Credentials_def read_string_def Let_def)

lemma two_sample_objects:
  "\<exists>s c d. run_ops sample_strings sample_memzero [New 0 u p, New 1 v q] (no_credentials empty_memory) = Some s
     \<and> cs_objs s 0 = Some c \<and> read_string (cs_mem s) (cred_password c) = p
     \<and> cs_objs s 1 = Some d \<and> read_string (cs_mem s) (cred_password d) = q"
proof -
  have "map_option values_of (run_ops sample_strings sample_memzero [New 0 u p, New 1 v q] (no_credentials empty_memory))
      = Some [0 \<mapsto> (u, p), 1 \<mapsto> (v, q)]"
    using run_ops_refines [OF sample_strings_ok sample_memzero_documented cred_inv_none, of "[New 0 u p, New 1 v q]" empty_memory]
    by (simp add: values_of_none del: run_ops.simps)
  then obtain s where s: "run_ops sample_strings sample_memzero [New 0 u p, New 1 v q] (no_credentials empty_memory) = Some s"
    and v: "values_of s = [0 \<mapsto> (u, p), 1 \<mapsto> (v, q)]"
    by (auto simp del: run_ops.simps)
  have "values_of s 0 = Some (u, p)" "values_of s 1 = Some (v, q)" by (simp_all add: v)
  then obtain c d where "cs_objs s 0 = Some c" "cs_objs s 1 = Some d"
      "value_of (cs_mem s) c = (u, p)" "value_of (cs_mem s) d = (v, q)"
    by (auto simp: values_of_def)
  with s show ?thesis by (auto simp: value_of_def simp del: run_ops.simps)
qed

section \<open>Properties\<close>

text \<open>C8: objects of \<open>Credentials\<close> behave as values: for every program of constructions, copies,
  assignments (self-assignments too) and destructions, on every implementation of \<open>std::string\<close>,
  each object alive reads the user name and the password that the specification gives it; no
  operation on one object, the erasure in its destructor included, shows in another.\<close>

theorem credentials_refine_values:
  assumes "impl_ok K" and "memzero_documented Z"
  shows "map_option values_of (run_ops K Z ops (no_credentials m)) = run_values ops Map.empty"
  using run_ops_refines [OF assms cred_inv_none] by (simp add: values_of_none)

theorem credentials_refine_values_witness:
  "map_option (\<lambda>s. values_of s 1) (run_ops sample_strings sample_memzero
     [New 0 [7] [5, 6], Copy 1 0, New 2 [8] [9], Assign 0 2, Delete 0] (no_credentials empty_memory))
   = Some (Some ([7], [5, 6]))"
proof -
  let ?ops = "[New 0 [7] [5, 6], Copy 1 0, New 2 [8] [9], Assign 0 2, Delete 0]"
  have "map_option values_of (run_ops sample_strings sample_memzero ?ops (no_credentials empty_memory))
      = Some [1 \<mapsto> ([7], [5, 6]), 2 \<mapsto> ([8], [9])]"
    unfolding credentials_refine_values [OF sample_strings_ok sample_memzero_documented]
    by (simp add: fun_eq_iff)
  then show ?thesis by (auto simp del: run_ops.simps)
qed

text \<open>C10: the destructor erases the password that the object had, and it stays erased: when an object is
  destroyed, at any point of any program and with any allocator, all bytes of its password are zero; and
  at every later point each of them is still zero, and in no string in use, unless the allocator has
  handed out the memory that holds it again since then.\<close>

theorem destroyed_passwords_stay_erased:
  assumes "impl_ok K" and "memzero_documented Z"
    and "run_ops K Z before (no_credentials m) = Some s" and "cs_objs s i = Some c"
    and "run_ops K Z [Delete i] s = Some t" and "run_ops K Z after t = Some u"
  shows "read_string (cs_mem t) (cred_password c) = replicate (str_size (cred_password c)) 0
     \<and> (\<forall>k < str_size (cred_password c).
          str_data (cred_password c) + k \<in> rehanded (cs_mem u) (length (handed (cs_mem t)))
          \<or> cells (cs_mem u) (str_data (cred_password c) + k) = 0
            \<and> str_data (cred_password c) + k \<notin> used (cs_mem u))"
proof -
  let ?g = "(cred_password c, length (handed (cs_mem s)))"
  have "cred_inv s" using run_ops_refines [OF assms(1,2) cred_inv_none] assms(3) by blast
  then have t: "cred_inv t" using run_ops_refines [OF assms(1,2)] assms(5) by blast
  then have u: "cred_inv u" using run_ops_refines [OF assms(1,2)] assms(6) by blast
  have "?g \<in> set (cs_dead t)" and h: "handed (cs_mem t) = handed (cs_mem s)"
    using assms(4,5) by (auto simp: destroy_Credentials_def Let_def)
  with t u run_ops_dead [OF assms(6)] have e: "erased_unless_rehanded (cs_mem t) ?g" "erased_unless_rehanded (cs_mem u) ?g"
    by (auto simp: cred_inv_def)
  from erased_reads_zero [OF e(1) h]
  have "read_string (cs_mem t) (cred_password c) = replicate (str_size (cred_password c)) 0" .
  moreover from e(2) have "str_data (cred_password c) + k \<in> rehanded (cs_mem u) (length (handed (cs_mem t)))
      \<or> cells (cs_mem u) (str_data (cred_password c) + k) = 0 \<and> str_data (cred_password c) + k \<notin> used (cs_mem u)"
    if "k < str_size (cred_password c)" for k
    using that by (simp add: erased_unless_rehanded_def h)
  ultimately show ?thesis by blast
qed

text \<open>Two objects; the first is destroyed, and then the second.\<close>

theorem destroyed_passwords_stay_erased_witness:
  "\<exists>s c t u. run_ops sample_strings sample_memzero [New 0 [7] [5, 6], New 1 [8] [9]] (no_credentials empty_memory) = Some s
     \<and> cs_objs s 0 = Some c \<and> read_string (cs_mem s) (cred_password c) = [5, 6]
     \<and> run_ops sample_strings sample_memzero [Delete 0] s = Some t
     \<and> run_ops sample_strings sample_memzero [Delete 1] t = Some u
     \<and> read_string (cs_mem t) (cred_password c) = [0, 0]
     \<and> cells (cs_mem u) (str_data (cred_password c) + 1) = 0"
proof -
  obtain s c d where s: "run_ops sample_strings sample_memzero [New 0 [7] [5, 6], New 1 [8] [9]] (no_credentials empty_memory) = Some s"
    and c: "cs_objs s 0 = Some c" and r: "read_string (cs_mem s) (cred_password c) = [5, 6]"
    and d: "cs_objs s 1 = Some d"
    using two_sample_objects [of "[7]" "[5, 6]" "[8]" "[9]"] by blast
  have l: "str_size (cred_password c) = 2" using arg_cong [OF r, of length] by simp
  obtain t where t: "run_ops sample_strings sample_memzero [Delete 0] s = Some t" and td: "cs_objs t 1 = Some d"
    by (simp add: c d [simplified])
  obtain u where u: "run_ops sample_strings sample_memzero [Delete 1] t = Some u"
    and h: "handed (cs_mem u) = handed (cs_mem t)"
    using td by (simp add: destroy_Credentials_def Let_def)
  note erased = destroyed_passwords_stay_erased [OF sample_strings_ok sample_memzero_documented s c t u]
  from erased have "read_string (cs_mem t) (cred_password c) = [0, 0]" by (simp add: l numeral_2_eq_2)
  moreover from erased have "\<forall>k<2. cells (cs_mem u) (str_data (cred_password c) + k) = 0"
    by (simp add: l h rehanded_def)
  from this [rule_format, of 1] have "cells (cs_mem u) (str_data (cred_password c) + 1) = 0" by simp
  ultimately show ?thesis using s c r t u by blast
qed

text \<open>C26: but the password that an assignment replaces is not erased: after credentials with a shorter
  password are assigned to an object, and the object is then destroyed, the rest of the old
  password, from the byte after the new terminating NUL, is still in memory, whether
  the string reuses its buffer or not.\<close>

theorem assignment_leaves_old_password:
  assumes "impl_ok K" and "memzero_documented Z"
    and "run_ops K Z before (no_credentials m) = Some s"
    and "cs_objs s i = Some c" and "cs_objs s j = Some d" and "i \<noteq> j"
    and "run_ops K Z [Assign i j, Delete i] s = Some t"
    and "str_size (cred_password d) < k" and "k < str_size (cred_password c)"
  shows "cells (cs_mem t) (str_data (cred_password c) + k) = read_string (cs_mem s) (cred_password c) ! k"
proof -
  have inv: "cred_inv s" using run_ops_refines [OF assms(1,2) cred_inv_none] assms(3) by blast
  then have "string_ok (cs_mem s) (cred_password c)"
    using separatedD(1) [of "cs_mem s" "regions s" "Pass i"] assms(4) by (simp add: cred_inv_def)
  then have k: "k \<le> str_cap (cred_password c)" using assms(9) by (simp add: string_ok_def)
  obtain c' m' where as: "assign_Credentials K False c d (cs_mem s) = (c', m')" by fastforce
  with assms(4-7) have "cs_mem t = destroy_Credentials Z c' m'" by auto
  with assign_then_destroy_leaves [OF assms(1,2) inv assms(6,4,5) as assms(8) k] assms(9) show ?thesis
    by (simp add: read_string_def)
qed

theorem assignment_leaves_old_password_witness:
  "\<exists>s c t. run_ops sample_strings sample_memzero [New 0 [7] [1, 2, 3, 4], New 1 [8] [9]] (no_credentials empty_memory) = Some s
     \<and> cs_objs s 0 = Some c \<and> read_string (cs_mem s) (cred_password c) = [1, 2, 3, 4]
     \<and> run_ops sample_strings sample_memzero [Assign 0 1, Delete 0] s = Some t
     \<and> cells (cs_mem t) (str_data (cred_password c) + 3) = 4"
proof -
  obtain s c d where s: "run_ops sample_strings sample_memzero [New 0 [7] [1, 2, 3, 4], New 1 [8] [9]] (no_credentials empty_memory) = Some s"
    and c: "cs_objs s 0 = Some c" and r: "read_string (cs_mem s) (cred_password c) = [1, 2, 3, 4]"
    and d: "cs_objs s 1 = Some d" and rd: "read_string (cs_mem s) (cred_password d) = [9]"
    using two_sample_objects [of "[7]" "[1, 2, 3, 4]" "[8]" "[9]"] by blast
  have l: "str_size (cred_password d) < 3" "3 < str_size (cred_password c)"
    using arg_cong [OF r, of length] arg_cong [OF rd, of length] by simp_all
  obtain t where t: "run_ops sample_strings sample_memzero [Assign 0 1, Delete 0] s = Some t"
    by (simp add: c d [unfolded One_nat_def] split_beta)
  have "cells (cs_mem t) (str_data (cred_password c) + 3) = 4"
    using assignment_leaves_old_password [OF sample_strings_ok sample_memzero_documented s c d _ t l] r by simp
  with s c r t show ?thesis by blast
qed

text \<open>One object: it erases its own copy of the password; the strings of the caller, the password among
  them, and the object's user name keep their bytes.\<close>

theorem credentials_erase_their_copy:
  assumes "impl_ok K" and "memzero_documented Z" and "string_ok m u" and "string_ok m p"
    and "mk_Credentials K u p m = (c, m1)"
  shows "read_string m1 (cred_password c) = read_string m p
     \<and> read_string (destroy_Credentials Z c m1) (cred_password c) = replicate (str_size p) 0
     \<and> read_string (destroy_Credentials Z c m1) p = read_string m p
     \<and> read_string (destroy_Credentials Z c m1) (cred_username c) = read_string m u"
proof -
  obtain u' m2 where a: "new_string K (read_string m u) m = (u', m2)" by fastforce
  obtain p' m3 where b: "new_string K (read_string m2 p) m2 = (p', m3)" by fastforce
  from assms(5) a b have c: "cred_username c = u'" "cred_password c = p'" and m: "m3 = m1"
    by (auto simp: mk_Credentials_def copy_string_def)
  note na = new_string_spec [OF assms(1) a] and nb = new_string_spec [OF assms(1) b]
  note ka = new_string_keeps [OF assms(1) a] and kb = new_string_keeps [OF assms(1) b]
  have ok: "string_ok m1 (cred_password c)" "string_ok m1 (cred_username c)"
    and dis: "span (cred_username c) \<inter> span (cred_password c) = {}"
    using nb(2) kb [OF na(2)] by (simp_all add: c m Int_commute)
  note z = destroy_evolves [OF assms(2) ok dis]
  have keep: "read_string (destroy_Credentials Z c m1) t = read_string m2 t" if t: "string_ok m2 t" for t
  proof -
    have d: "span p' \<inter> span t = {}" and r: "read_string m1 t = read_string m2 t" and o: "string_ok m1 t"
      using kb [OF t] by (simp_all add: m)
    have "read_string (destroy_Credentials Z c m1) t = read_string m1 t"
      using o d z(3) by (intro read_string_cong) (auto simp: string_ok_def c)
    with r show ?thesis by simp
  qed
  have "str_size (cred_password c) = str_size p" using nb(5) by (simp add: c)
  moreover have "read_string (destroy_Credentials Z c m1) (cred_password c) = replicate (str_size (cred_password c)) 0"
    using z(2) by (intro erased_reads_zero) (simp_all add: destroy_Credentials_def Let_def)
  ultimately show ?thesis
    using na(1) nb(1) ka [OF assms(4)] keep [OF na(2)] keep [of p] by (simp add: c m)
qed

theorem credentials_erase_their_copy_witness:
  "case new_string sample_strings [7] empty_memory of (u, m) \<Rightarrow>
   case new_string sample_strings [5, 6] m of (p, m') \<Rightarrow>
   case mk_Credentials sample_strings u p m' of (c, m1) \<Rightarrow>
     read_string (destroy_Credentials sample_memzero c m1) (cred_password c) = [0, 0]
     \<and> read_string (destroy_Credentials sample_memzero c m1) p = [5, 6]"
proof -
  obtain u m where a: "new_string sample_strings [7] empty_memory = (u, m)" by fastforce
  obtain p m' where b: "new_string sample_strings [5, 6] m = (p, m')" by fastforce
  obtain c m1 where c: "mk_Credentials sample_strings u p m' = (c, m1)" by fastforce
  note na = new_string_spec [OF sample_strings_ok a] and nb = new_string_spec [OF sample_strings_ok b]
  then show ?thesis
    using credentials_erase_their_copy [OF sample_strings_ok sample_memzero_documented
        new_string_keeps [OF sample_strings_ok b na(2), THEN conjunct1] nb(2) c]
    by (simp add: a b c numeral_2_eq_2)
qed

end
