(* ===== verification/Iggy_Client.thy ===== *)
theory Iggy_Client
  imports Iggy_Provider Iggy_Model Iggy_Credentials
begin

text \<open>
  The client: \<open>Options\<close> and \<open>Client\<close> of \<^verbatim>\<open>sdk/client.h\<close> and
  \<^verbatim>\<open>sdk/client.cc\<close>. The process library behind \<open>ping\<close> is a parameter.
\<close>

section \<open>Options\<close>

record Options =
  opt_hostname :: string
  opt_port :: u16
  opt_transport :: Transport
  opt_credentials :: Credentials

text \<open>The default member initializers; the arguments of \<open>Credentials("iggy", "iggy")\<close> are
  temporary strings, destroyed after the construction.\<close>

definition literal_bytes :: "string \<Rightarrow> bytes" where
  "literal_bytes s = map of_char s"

definition default_Options :: "string_impl \<Rightarrow> memory \<Rightarrow> Options \<times> memory" where
  "default_Options K m =
     (let (u, m1) = new_string K (literal_bytes ''iggy'') m;
          (p, m2) = new_string K (literal_bytes ''iggy'') m1;
          (c, m3) = mk_Credentials K u p m2
      in (\<lparr>opt_hostname = ''localhost'', opt_port = DEFAULT_TCP_PORT, opt_transport = TCP,
           opt_credentials = c\<rparr>, free_string u (free_string p m3)))"

definition options_validate :: "Options \<Rightarrow> unit result" where
  "options_validate this =
     (if opt_hostname this = [] then Inl (Invalid_Argument ''Hostname cannot be empty'') else Inr ())"

section \<open>The client\<close>

text \<open>\<open>Client\<close> has no members: its constructor validates the options and keeps nothing.\<close>

datatype Client = Client

definition mk_Client :: "Options \<Rightarrow> Client result" where
  "mk_Client options = rbind (options_validate options) (\<lambda>_. Inr Client)"

text \<open>
  The process library: starting a process and waiting for it give an error code (0 for none)
  and, for the wait, the exit status; the destructor of the process object runs at the end of
  the function. Each may change the world outside, of type \<open>'w\<close>.
\<close>

record reproc_options =
  redirect_parent :: bool

record 'w reproc =
  process_start :: "string list \<Rightarrow> reproc_options \<Rightarrow> 'w \<Rightarrow> int \<times> 'w"
  process_wait :: "nat \<Rightarrow> 'w \<Rightarrow> (int \<times> int) \<times> 'w"
  process_destroy :: "'w \<Rightarrow> 'w"

definition ping_args :: "string list" where
  "ping_args = [''docker'', ''exec'', ''iggy_test'', ''/iggy/iggy'', ''ping'']"

definition ping :: "'w reproc \<Rightarrow> Client \<Rightarrow> 'w \<Rightarrow> unit result \<times> 'w" where
  "ping R this w =
     (let (started, w1) = process_start R ping_args \<lparr>redirect_parent = True\<rparr> w;
          (waited, w2) = process_wait R 5000 w1
      in (Inr (), process_destroy R w2))"

definition getStats :: "Client \<Rightarrow> Stats" where
  "getStats this = default_Stats"

section \<open>Lemmas\<close>

lemma mk_Client_iff: "mk_Client o1 = Inr c \<longleftrightarrow> opt_hostname o1 \<noteq> []"
  by (cases c) (simp add: mk_Client_def options_validate_def rbind_def)

lemma mk_Client_throws: "opt_hostname o1 = [] \<Longrightarrow> mk_Client o1 = Inl (Invalid_Argument ''Hostname cannot be empty'')"
  by (simp add: mk_Client_def options_validate_def rbind_def)

section \<open>Properties\<close>

text \<open>The default port does not follow the transport. The options of a client whose transport
  alone is changed keep the TCP port, and it is the default port that the protocol provider has for a
  protocol over this transport exactly when the transport is TCP.\<close>

theorem default_port_is_tcp_only:
  assumes "getProtocolDefinition iggy_provider name = Inr d"
  shows "opt_port ((fst (default_Options K m))\<lparr>opt_transport := pd_transport d\<rparr>) = pd_defaultPort d
     \<longleftrightarrow> pd_transport d = TCP"
proof -
  have "d \<in> set (getSupportedProtocols iggy_provider)"
    using iggy.found_listed [OF assms] by blast
  then show ?thesis
    by (auto simp: default_Options_def split_beta iggy_provider_def as_provider_def
        iggy_getSupportedProtocols_def iggy_instance_def iggy_protocols_def iggy_constants)
qed

theorem default_port_is_tcp_only_witness:
  "opt_port ((fst (default_Options sample_strings empty_memory))\<lparr>opt_transport := QUIC\<rparr>) \<noteq> DEFAULT_QUIC_PORT"
proof -
  have l: "hd iggy_protocols \<in> set (getSupportedProtocols iggy_provider)"
    by (simp add: iggy_protocols_def)
  have "pd_transport (hd iggy_protocols) = QUIC" and "pd_defaultPort (hd iggy_protocols) = DEFAULT_QUIC_PORT"
    by (simp_all add: iggy_protocols_def iggy_constants)
  with default_port_is_tcp_only [OF iggy.listed_found [OF l], of sample_strings empty_memory] show ?thesis by simp
qed

end
