(* ===== verification/Iggy_Options.thy ===== *)
theory Iggy_Options
  imports Iggy_Client
begin

text \<open>
  The life of \<open>Options\<close> (\<^verbatim>\<open>sdk/client.h\<close>), a struct with public members that the
  compiler gives its copy constructor, assignment and destructor: these work member by member, so
  they run those of \<open>Credentials\<close>. Options can also be moved: the host name is, but
  \<open>Credentials\<close>, whose destructor is declared, has no move and is copied. Programs make options, set
  their members, copy, move, assign and destroy them; each is a program over credentials, whose theorems then hold for it.
\<close>

section \<open>The generated operations\<close>

definition copy_Options :: "string_impl \<Rightarrow> Options \<Rightarrow> memory \<Rightarrow> Options \<times> memory" where
  "copy_Options K other m = (case copy_Credentials K (opt_credentials other) m of
     (c, m1) \<Rightarrow> (\<lparr>opt_hostname = opt_hostname other, opt_port = opt_port other,
        opt_transport = opt_transport other, opt_credentials = c\<rparr>, m1))"

definition assign_Options :: "string_impl \<Rightarrow> bool \<Rightarrow> Options \<Rightarrow> Options \<Rightarrow> memory \<Rightarrow> Options \<times> memory" where
  "assign_Options K same this other m =
     (case assign_Credentials K same (opt_credentials this) (opt_credentials other) m of
        (c, m1) \<Rightarrow> (\<lparr>opt_hostname = opt_hostname other, opt_port = opt_port other,
          opt_transport = opt_transport other, opt_credentials = c\<rparr>, m1))"

text \<open>
  The moves: the new options, what is left of \<open>other\<close>, and the memory. \<open>left\<close> is the text that the move leaves in
  the host name, which the standard does not specify, also when an object is moved to itself (\<open>same\<close>).
\<close>

definition move_Options :: "string_impl \<Rightarrow> string \<Rightarrow> Options \<Rightarrow> memory \<Rightarrow> Options \<times> Options \<times> memory" where
  "move_Options K left other m = (case copy_Credentials K (opt_credentials other) m of
     (c, m1) \<Rightarrow> (\<lparr>opt_hostname = opt_hostname other, opt_port = opt_port other,
        opt_transport = opt_transport other, opt_credentials = c\<rparr>, other\<lparr>opt_hostname := left\<rparr>, m1))"

definition move_assign_Options ::
  "string_impl \<Rightarrow> bool \<Rightarrow> string \<Rightarrow> Options \<Rightarrow> Options \<Rightarrow> memory \<Rightarrow> Options \<times> Options \<times> memory" where
  "move_assign_Options K same left this other m =
     (case assign_Credentials K same (opt_credentials this) (opt_credentials other) m of
        (c, m1) \<Rightarrow>
          (let this' = \<lparr>opt_hostname = if same then left else opt_hostname other, opt_port = opt_port other,
                 opt_transport = opt_transport other, opt_credentials = c\<rparr>
           in (this', if same then this' else other\<lparr>opt_hostname := left\<rparr>, m1)))"

definition destroy_Options :: "sodium_memzero \<Rightarrow> Options \<Rightarrow> memory \<Rightarrow> memory" where
  "destroy_Options Z this m = destroy_Credentials Z (opt_credentials this) m"

text \<open>
  \<open>Credentials c(username, password); options.credentials = c;\<close> with strings of the caller that are
  destroyed after the construction; \<open>c\<close> is destroyed after the assignment. The result has the options,
  the password of \<open>c\<close> and the memory.
\<close>

definition set_credentials ::
  "string_impl \<Rightarrow> sodium_memzero \<Rightarrow> bytes \<Rightarrow> bytes \<Rightarrow> Options \<Rightarrow> memory \<Rightarrow> Options \<times> std_string \<times> memory" where
  "set_credentials K Z username password this m =
     (let (u, m1) = new_string K username m;
          (p, m2) = new_string K password m1;
          (c, m3) = mk_Credentials K u p m2;
          (c', m4) = assign_Credentials K False (opt_credentials this) c (free_string u (free_string p m3))
      in (this\<lparr>opt_credentials := c'\<rparr>, cred_password c, destroy_Credentials Z c m4))"

section \<open>Programs\<close>

datatype opt_op =
    Make nat
  | Set_Hostname nat string
  | Set_Port nat u16
  | Set_Transport nat Transport
  | Set_Credentials nat bytes bytes
  | Copy_Options nat nat
  | Assign_Options nat nat
  | Move_Options nat nat string
  | Move_Assign_Options nat nat string
  | Delete_Options nat

text \<open>The objects by name, the memory, and the passwords of the destroyed credentials, each with the number of
  regions handed out before its destruction.\<close>

record opt_sys =
  op_objs :: "nat \<rightharpoonup> Options"
  op_dead :: "(std_string \<times> nat) list"
  op_mem :: memory

definition with_options :: "nat \<Rightarrow> Options \<times> memory \<Rightarrow> opt_sys \<Rightarrow> opt_sys" where
  "with_options i om s = s\<lparr>op_objs := (op_objs s)(i \<mapsto> fst om), op_mem := snd om\<rparr>"

definition on_options :: "nat \<Rightarrow> (Options \<Rightarrow> Options) \<Rightarrow> opt_sys \<Rightarrow> opt_sys option" where
  "on_options i f s = map_option (\<lambda>x. with_options i (f x, op_mem s) s) (op_objs s i)"

fun exec_opt :: "string_impl \<Rightarrow> sodium_memzero \<Rightarrow> opt_op \<Rightarrow> opt_sys \<Rightarrow> opt_sys option" where
  "exec_opt K Z (Make i) s =
     (if op_objs s i \<noteq> None then None else Some (with_options i (default_Options K (op_mem s)) s))"
| "exec_opt K Z (Set_Hostname i h) s = on_options i (opt_hostname_update (\<lambda>_. h)) s"
| "exec_opt K Z (Set_Port i p) s = on_options i (opt_port_update (\<lambda>_. p)) s"
| "exec_opt K Z (Set_Transport i t) s = on_options i (opt_transport_update (\<lambda>_. t)) s"
| "exec_opt K Z (Set_Credentials i u p) s = (case op_objs s i of
     None \<Rightarrow> None
   | Some x \<Rightarrow> (case set_credentials K Z u p x (op_mem s) of
       (x', g, m) \<Rightarrow> Some ((with_options i (x', m) s)\<lparr>op_dead := op_dead s @ [(g, length (handed m))]\<rparr>)))"
| "exec_opt K Z (Copy_Options i j) s = (case (op_objs s i, op_objs s j) of
     (None, Some y) \<Rightarrow> Some (with_options i (copy_Options K y (op_mem s)) s)
   | _ \<Rightarrow> None)"
| "exec_opt K Z (Assign_Options i j) s = (case (op_objs s i, op_objs s j) of
     (Some x, Some y) \<Rightarrow> Some (with_options i (assign_Options K (i = j) x y (op_mem s)) s)
   | _ \<Rightarrow> None)"
| "exec_opt K Z (Move_Options i j left) s = (case (op_objs s i, op_objs s j) of
     (None, Some y) \<Rightarrow> (case move_Options K left y (op_mem s) of
         (x, y', m) \<Rightarrow> Some (with_options i (x, m) (with_options j (y', m) s)))
   | _ \<Rightarrow> None)"
| "exec_opt K Z (Move_Assign_Options i j left) s = (case (op_objs s i, op_objs s j) of
     (Some x, Some y) \<Rightarrow> (case move_assign_Options K (i = j) left x y (op_mem s) of
         (x', y', m) \<Rightarrow> Some (with_options i (x', m) (with_options j (y', m) s)))
   | _ \<Rightarrow> None)"
| "exec_opt K Z (Delete_Options i) s = (case op_objs s i of
     None \<Rightarrow> None
   | Some x \<Rightarrow> Some (s\<lparr>op_objs := (op_objs s)(i := None), op_mem := destroy_Options Z x (op_mem s),
       op_dead := op_dead s @ [(cred_password (opt_credentials x), length (handed (op_mem s)))]\<rparr>))"

fun run_opts :: "string_impl \<Rightarrow> sodium_memzero \<Rightarrow> opt_op list \<Rightarrow> opt_sys \<Rightarrow> opt_sys option" where
  "run_opts K Z [] s = Some s"
| "run_opts K Z (a # as) s = Option.bind (exec_opt K Z a s) (run_opts K Z as)"

definition no_options :: "memory \<Rightarrow> opt_sys" where
  "no_options m = \<lparr>op_objs = Map.empty, op_dead = [], op_mem = m\<rparr>"

section \<open>The specification\<close>

text \<open>Options as values.\<close>

record opt_value =
  ov_hostname :: string
  ov_port :: u16
  ov_transport :: Transport
  ov_username :: bytes
  ov_password :: bytes

definition default_value :: opt_value where
  "default_value = \<lparr>ov_hostname = ''localhost'', ov_port = DEFAULT_TCP_PORT, ov_transport = TCP,
     ov_username = literal_bytes ''iggy'', ov_password = literal_bytes ''iggy''\<rparr>"

type_synonym opt_values = "nat \<rightharpoonup> opt_value"

definition on_value :: "nat \<Rightarrow> (opt_value \<Rightarrow> opt_value) \<Rightarrow> opt_values \<Rightarrow> opt_values option" where
  "on_value i f v = map_option (\<lambda>x. v(i \<mapsto> f x)) (v i)"

fun spec_opt :: "opt_op \<Rightarrow> opt_values \<Rightarrow> opt_values option" where
  "spec_opt (Make i) v = (if v i \<noteq> None then None else Some (v(i \<mapsto> default_value)))"
| "spec_opt (Set_Hostname i h) v = on_value i (ov_hostname_update (\<lambda>_. h)) v"
| "spec_opt (Set_Port i p) v = on_value i (ov_port_update (\<lambda>_. p)) v"
| "spec_opt (Set_Transport i t) v = on_value i (ov_transport_update (\<lambda>_. t)) v"
| "spec_opt (Set_Credentials i u p) v = on_value i (\<lambda>x. x\<lparr>ov_username := u, ov_password := p\<rparr>) v"
| "spec_opt (Copy_Options i j) v = (case (v i, v j) of (None, Some x) \<Rightarrow> Some (v(i \<mapsto> x)) | _ \<Rightarrow> None)"
| "spec_opt (Assign_Options i j) v = (case (v i, v j) of (Some _, Some x) \<Rightarrow> Some (v(i \<mapsto> x)) | _ \<Rightarrow> None)"
| "spec_opt (Move_Options i j left) v =
     (case (v i, v j) of (None, Some x) \<Rightarrow> Some (v(i \<mapsto> x, j \<mapsto> x\<lparr>ov_hostname := left\<rparr>)) | _ \<Rightarrow> None)"
| "spec_opt (Move_Assign_Options i j left) v =
     (case (v i, v j) of (Some _, Some x) \<Rightarrow> Some (v(i \<mapsto> x, j \<mapsto> x\<lparr>ov_hostname := left\<rparr>)) | _ \<Rightarrow> None)"
| "spec_opt (Delete_Options i) v = (if v i = None then None else Some (v(i := None)))"

fun spec_opts :: "opt_op list \<Rightarrow> opt_values \<Rightarrow> opt_values option" where
  "spec_opts [] v = Some v"
| "spec_opts (a # as) v = Option.bind (spec_opt a v) (spec_opts as)"

definition opt_value_of :: "memory \<Rightarrow> Options \<Rightarrow> opt_value" where
  "opt_value_of m x = \<lparr>ov_hostname = opt_hostname x, ov_port = opt_port x, ov_transport = opt_transport x,
     ov_username = read_string m (cred_username (opt_credentials x)),
     ov_password = read_string m (cred_password (opt_credentials x))\<rparr>"

definition opt_values_of :: "opt_sys \<Rightarrow> opt_values" where
  "opt_values_of s = (\<lambda>i. map_option (opt_value_of (op_mem s)) (op_objs s i))"

section \<open>The program over credentials behind a program over options\<close>

text \<open>Object \<open>i\<close> has the credentials \<open>Suc i\<close>; the name 0 is that of the temporary.\<close>

fun cred_ops :: "opt_op \<Rightarrow> cred_op list" where
  "cred_ops (Make i) = [New (Suc i) (literal_bytes ''iggy'') (literal_bytes ''iggy'')]"
| "cred_ops (Set_Credentials i u p) = [New 0 u p, Assign (Suc i) 0, Delete 0]"
| "cred_ops (Copy_Options i j) = [Copy (Suc i) (Suc j)]"
| "cred_ops (Assign_Options i j) = [Assign (Suc i) (Suc j)]"
| "cred_ops (Move_Options i j left) = [Copy (Suc i) (Suc j)]"
| "cred_ops (Move_Assign_Options i j left) = [Assign (Suc i) (Suc j)]"
| "cred_ops (Delete_Options i) = [Delete (Suc i)]"
| "cred_ops _ = []"

definition creds_of :: "opt_sys \<Rightarrow> cred_sys" where
  "creds_of s = \<lparr>cs_objs = (\<lambda>n. case n of 0 \<Rightarrow> None | Suc i \<Rightarrow> map_option opt_credentials (op_objs s i)),
     cs_dead = op_dead s, cs_mem = op_mem s\<rparr>"

lemma creds_of_simps [simp]:
  "cs_objs (creds_of s) 0 = None" "cs_objs (creds_of s) (Suc i) = map_option opt_credentials (op_objs s i)"
  "cs_dead (creds_of s) = op_dead s" "cs_mem (creds_of s) = op_mem s"
  by (simp_all add: creds_of_def)

lemma with_options_simps [simp]:
  "op_objs (with_options i om s) = (op_objs s)(i \<mapsto> fst om)" "op_mem (with_options i om s) = snd om"
  "op_dead (with_options i om s) = op_dead s"
  by (simp_all add: with_options_def)

lemma creds_of_with:
  "creds_of (with_options i (x, m) s)
     = (creds_of s)\<lparr>cs_objs := (cs_objs (creds_of s))(Suc i \<mapsto> opt_credentials x), cs_mem := m\<rparr>"
  by (auto simp: creds_of_def with_options_def fun_eq_iff split: nat.split)

lemma creds_of_set:
  "op_objs s i = Some x \<Longrightarrow> opt_credentials (f x) = opt_credentials x \<Longrightarrow>
     creds_of (with_options i (f x, op_mem s) s) = creds_of s"
  by (auto simp: creds_of_def with_options_def fun_eq_iff split: nat.split)

text \<open>Each operation does to the credentials what the operations behind it do.\<close>

lemma default_Options_creds:
  assumes "op_objs s i = None"
  shows "run_ops K Z (cred_ops (Make i)) (creds_of s) = Some (creds_of (with_options i (default_Options K (op_mem s)) s))"
  using assms by (simp add: default_Options_def creds_of_with Let_def split_beta)

lemma set_credentials_creds:
  assumes x: "op_objs s i = Some x" and e: "set_credentials K Z u p x (op_mem s) = (x', g, m)"
  shows "run_ops K Z (cred_ops (Set_Credentials i u p)) (creds_of s)
     = Some (creds_of ((with_options i (x', m) s)\<lparr>op_dead := op_dead s @ [(g, length (handed m))]\<rparr>))"
proof -
  obtain us m1 where 1: "new_string K u (op_mem s) = (us, m1)" by fastforce
  obtain ps m2 where 2: "new_string K p m1 = (ps, m2)" by fastforce
  obtain c m3 where 3: "mk_Credentials K us ps m2 = (c, m3)" by fastforce
  obtain c' m4 where 4: "assign_Credentials K False (opt_credentials x) c (free_string us (free_string ps m3)) = (c', m4)"
    by fastforce
  from e have r: "x' = x\<lparr>opt_credentials := c'\<rparr>" "g = cred_password c" "m = destroy_Credentials Z c m4"
    by (auto simp: set_credentials_def 1 2 3 4)
  have "creds_of ((with_options i (x', m) s)\<lparr>op_dead := op_dead s @ [(g, length (handed m))]\<rparr>)
      = (creds_of s)\<lparr>cs_objs := (cs_objs (creds_of s))(Suc i \<mapsto> c'), cs_dead := op_dead s @ [(cred_password c, length (handed m4))],
         cs_mem := destroy_Credentials Z c m4\<rparr>"
    by (simp add: creds_of_def with_options_def r fun_eq_iff split: nat.split)
  moreover have "(cs_objs (creds_of s))(Suc i \<mapsto> c', 0 := None) = (cs_objs (creds_of s))(Suc i \<mapsto> c')"
    by (rule ext) simp
  ultimately show ?thesis
    by (simp add: 1 2 3 4 x fun_upd_twist [of 0 "Suc i"])
qed

lemma copy_Options_creds:
  assumes "op_objs s i = None" and "op_objs s j = Some y"
  shows "run_ops K Z (cred_ops (Copy_Options i j)) (creds_of s)
     = Some (creds_of (with_options i (copy_Options K y (op_mem s)) s))"
  using assms by (simp add: copy_Options_def creds_of_with split_beta)

lemma assign_Options_creds:
  assumes "op_objs s i = Some x" and "op_objs s j = Some y"
  shows "run_ops K Z (cred_ops (Assign_Options i j)) (creds_of s)
     = Some (creds_of (with_options i (assign_Options K (i = j) x y (op_mem s)) s))"
  using assms by (simp add: assign_Options_def creds_of_with split_beta)

lemma delete_Options_creds:
  assumes "op_objs s i = Some x"
  shows "run_ops K Z (cred_ops (Delete_Options i)) (creds_of s)
     = Some (creds_of (s\<lparr>op_objs := (op_objs s)(i := None), op_mem := destroy_Options Z x (op_mem s),
         op_dead := op_dead s @ [(cred_password (opt_credentials x), length (handed (op_mem s)))]\<rparr>))"
  using assms by (simp add: destroy_Options_def creds_of_def fun_eq_iff split: nat.split)

lemma on_options_creds:
  assumes "on_options i f s = Some t" and "\<And>x. opt_credentials (f x) = opt_credentials x"
  shows "creds_of t = creds_of s"
  using assms by (auto simp: on_options_def creds_of_set)

text \<open>A move is a copy, after which the source has another host name, for options and for values.\<close>

lemma move_is_copy:
  "exec_opt K Z (Move_Options i j left) s
     = Option.bind (exec_opt K Z (Copy_Options i j) s) (exec_opt K Z (Set_Hostname j left))"
  by (cases "op_objs s i"; cases "op_objs s j"; cases "i = j")
    (auto simp: move_Options_def copy_Options_def on_options_def with_options_def fun_upd_twist split: prod.split)

lemma move_assign_is_assign:
  "exec_opt K Z (Move_Assign_Options i j left) s
     = Option.bind (exec_opt K Z (Assign_Options i j) s) (exec_opt K Z (Set_Hostname j left))"
  by (cases "op_objs s i"; cases "op_objs s j"; cases "i = j")
    (auto simp: move_assign_Options_def assign_Options_def on_options_def with_options_def Let_def fun_upd_twist
      split: prod.split)

lemma spec_move_is_copy:
  "spec_opt (Move_Options i j left) v = Option.bind (spec_opt (Copy_Options i j) v) (spec_opt (Set_Hostname j left))"
  "spec_opt (Move_Assign_Options i j left) v = Option.bind (spec_opt (Assign_Options i j) v) (spec_opt (Set_Hostname j left))"
  by (auto simp: on_value_def split: option.split)

lemmas moves = move_is_copy move_assign_is_assign spec_move_is_copy

fun is_move :: "opt_op \<Rightarrow> bool" where
  "is_move (Move_Options i j left) = True"
| "is_move (Move_Assign_Options i j left) = True"
| "is_move _ = False"

lemma then_set_hostname_creds:
  assumes "Option.bind (exec_opt K Z a s) (exec_opt K Z (Set_Hostname j left)) = Some t"
  obtains u where "exec_opt K Z a s = Some u" "creds_of t = creds_of u"
  using assms by (auto simp: bind_eq_Some_conv on_options_creds)

lemma exec_plain_creds:
  assumes "exec_opt K Z a s = Some t" and "\<not> is_move a"
  shows "run_ops K Z (cred_ops a) (creds_of s) = Some (creds_of t)"
proof (cases a)
  case (Make i)
  with assms show ?thesis
    using default_Options_creds [of s i K Z] by (simp only: exec_opt.simps split: if_splits) auto
next
  case (Set_Credentials i u p)
  with assms show ?thesis
    by (auto simp: set_credentials_creds simp del: cred_ops.simps run_ops.simps split: option.splits prod.splits)
next
  case (Copy_Options i j)
  with assms show ?thesis
    by (auto simp: copy_Options_creds simp del: cred_ops.simps run_ops.simps split: option.splits)
next
  case (Assign_Options i j)
  with assms show ?thesis
    by (auto simp: assign_Options_creds simp del: cred_ops.simps run_ops.simps split: option.splits)
next
  case (Delete_Options i)
  with assms show ?thesis
    by (auto simp: delete_Options_creds simp del: cred_ops.simps run_ops.simps split: option.splits)
qed (use assms in \<open>auto simp: on_options_creds\<close>)

lemma exec_opt_creds:
  assumes "exec_opt K Z a s = Some t"
  shows "run_ops K Z (cred_ops a) (creds_of s) = Some (creds_of t)"
proof (cases "is_move a")
  case True
  then obtain b j left where b: "cred_ops a = cred_ops b" "\<not> is_move b"
      and e: "Option.bind (exec_opt K Z b s) (exec_opt K Z (Set_Hostname j left)) = Some t"
    using assms by (cases a rule: is_move.cases) (force simp only: moves cred_ops.simps is_move.simps)+
  from e obtain u where "exec_opt K Z b s = Some u" "creds_of t = creds_of u" by (rule then_set_hostname_creds)
  with b exec_plain_creds show ?thesis by simp
qed (use assms exec_plain_creds in simp)

section \<open>Refinement\<close>

lemma opt_values_of_None: "opt_values_of s i = None \<longleftrightarrow> op_objs s i = None"
  by (simp add: opt_values_of_def)

text \<open>The value of options is their settings and the value of their credentials.\<close>

definition opt_value_from :: "Options \<Rightarrow> bytes \<times> bytes \<Rightarrow> opt_value" where
  "opt_value_from x up = \<lparr>ov_hostname = opt_hostname x, ov_port = opt_port x, ov_transport = opt_transport x,
     ov_username = fst up, ov_password = snd up\<rparr>"

lemma opt_values_of_creds:
  "opt_values_of s i = map_option (\<lambda>x. opt_value_from x (the (values_of (creds_of s) (Suc i)))) (op_objs s i)"
  by (cases "op_objs s i")
    (simp_all add: opt_values_of_def opt_value_of_def opt_value_from_def values_of_def value_of_def)

lemma opt_values_of_upd:
  assumes "values_of (creds_of t) = (values_of (creds_of s))(Suc i \<mapsto> up)"
    and "op_objs t = (op_objs s)(i \<mapsto> x)"
  shows "opt_values_of t = (opt_values_of s)(i \<mapsto> opt_value_from x up)"
proof
  fix j show "opt_values_of t j = ((opt_values_of s)(i \<mapsto> opt_value_from x up)) j"
    by (simp add: opt_values_of_creds assms)
qed

text \<open>What is known of the credentials after an operation.\<close>

lemma exec_opt_values:
  assumes "impl_ok K" and "memzero_documented Z" and "cred_inv (creds_of s)" and "exec_opt K Z a s = Some t"
  shows "run_values (cred_ops a) (values_of (creds_of s)) = Some (values_of (creds_of t)) \<and> cred_inv (creds_of t)"
  using run_ops_refines [OF assms(1,2,3), of "cred_ops a"] exec_opt_creds [OF assms(4)] by simp

lemma values_of_creds_0 [simp]: "values_of (creds_of s) 0 = None"
  by (simp add: values_of_def)

lemma values_of_creds_Suc:
  "op_objs s i = Some x \<Longrightarrow> \<exists>up. values_of (creds_of s) (Suc i) = Some up \<and> opt_values_of s i = Some (opt_value_from x up)"
  by (simp add: values_of_def opt_values_of_def opt_value_of_def opt_value_from_def value_of_def)

lemma on_options_refines:
  assumes "\<And>x. opt_credentials (f x) = opt_credentials x" and "\<And>x up. opt_value_from (f x) up = g (opt_value_from x up)"
  shows "map_option opt_values_of (on_options i f s) = on_value i g (opt_values_of s)"
proof (cases "op_objs s i")
  case (Some x)
  let ?t = "with_options i (f x, op_mem s) s"
  obtain up where up: "values_of (creds_of s) (Suc i) = Some up" "opt_values_of s i = Some (opt_value_from x up)"
    using values_of_creds_Suc [OF Some] by blast
  have "creds_of ?t = creds_of s" using creds_of_set [OF Some, of f] assms(1) by simp
  then have "values_of (creds_of ?t) = (values_of (creds_of s))(Suc i \<mapsto> up)"
    using up(1) by (simp add: fun_upd_idem)
  from opt_values_of_upd [OF this, of "f x"] up(2) assms(2) Some show ?thesis
    by (simp add: on_options_def on_value_def)
qed (simp add: on_options_def on_value_def opt_values_of_None)

lemma exec_plain_refines:
  assumes K: "impl_ok K" and Z: "memzero_documented Z" and inv: "cred_inv (creds_of s)" and plain: "\<not> is_move a"
  shows "map_option opt_values_of (exec_opt K Z a s) = spec_opt a (opt_values_of s)"
proof (cases a)
  case (Make i)
  show ?thesis
  proof (cases "op_objs s i")
    case None
    let ?t = "with_options i (default_Options K (op_mem s)) s"
    have e: "exec_opt K Z a s = Some ?t" using None Make by simp
    have "values_of (creds_of s) (Suc i) = None" using None by (simp add: values_of_None)
    with exec_opt_values [OF K Z inv e] Make
    have "values_of (creds_of ?t) = (values_of (creds_of s))(Suc i \<mapsto> (literal_bytes ''iggy'', literal_bytes ''iggy''))"
      by simp
    from opt_values_of_upd [OF this, of "fst (default_Options K (op_mem s))"] e Make None show ?thesis
      by (simp add: opt_values_of_None default_value_def opt_value_from_def default_Options_def Let_def split_beta)
  qed (use Make opt_values_of_None [of s i] in auto)
next
  case (Set_Credentials i u p)
  show ?thesis
  proof (cases "op_objs s i")
    case (Some x)
    obtain x' g m where sc: "set_credentials K Z u p x (op_mem s) = (x', g, m)" by (metis prod_cases3)
    let ?t = "(with_options i (x', m) s)\<lparr>op_dead := op_dead s @ [(g, length (handed m))]\<rparr>"
    have e: "exec_opt K Z a s = Some ?t" using Some Set_Credentials sc by simp
    obtain up where up: "values_of (creds_of s) (Suc i) = Some up" "opt_values_of s i = Some (opt_value_from x up)"
      using values_of_creds_Suc [OF Some] by blast
    have "(values_of (creds_of s))(Suc i \<mapsto> (u, p), 0 := None) = (values_of (creds_of s))(Suc i \<mapsto> (u, p))"
      by (rule ext) simp
    with exec_opt_values [OF K Z inv e] Set_Credentials up(1)
    have "values_of (creds_of ?t) = (values_of (creds_of s))(Suc i \<mapsto> (u, p))"
      by (simp add: fun_upd_twist [of 0 "Suc i"])
    moreover have "opt_value_from x' (u, p) = (opt_value_from x up)\<lparr>ov_username := u, ov_password := p\<rparr>"
      using sc by (auto simp: set_credentials_def opt_value_from_def Let_def split: prod.splits)
    ultimately show ?thesis
      using opt_values_of_upd [of ?t s i "(u, p)" x'] e Set_Credentials up(2) by (simp add: on_value_def)
  qed (use Set_Credentials opt_values_of_None [of s i] in \<open>auto simp: on_value_def\<close>)
next
  case (Copy_Options i j)
  show ?thesis
  proof (cases "op_objs s i = None \<and> op_objs s j \<noteq> None")
    case True
    then obtain y where y: "op_objs s j = Some y" and i: "op_objs s i = None" by auto
    let ?t = "with_options i (copy_Options K y (op_mem s)) s"
    have e: "exec_opt K Z a s = Some ?t" using y i Copy_Options by simp
    obtain up where up: "values_of (creds_of s) (Suc j) = Some up" "opt_values_of s j = Some (opt_value_from y up)"
      using values_of_creds_Suc [OF y] by blast
    have "values_of (creds_of s) (Suc i) = None" using i by (simp add: values_of_None)
    with exec_opt_values [OF K Z inv e] Copy_Options up(1)
    have "values_of (creds_of ?t) = (values_of (creds_of s))(Suc i \<mapsto> up)" by simp
    from opt_values_of_upd [OF this, of "fst (copy_Options K y (op_mem s))"] e Copy_Options up(2)
      opt_values_of_None [of s i] i show ?thesis
      by (simp add: copy_Options_def opt_value_from_def split_beta)
  qed (use Copy_Options opt_values_of_None [of s i] opt_values_of_None [of s j] in \<open>auto split: option.split\<close>)
next
  case (Assign_Options i j)
  show ?thesis
  proof (cases "op_objs s i \<noteq> None \<and> op_objs s j \<noteq> None")
    case True
    then obtain x y where x: "op_objs s i = Some x" and y: "op_objs s j = Some y" by auto
    let ?t = "with_options i (assign_Options K (i = j) x y (op_mem s)) s"
    have e: "exec_opt K Z a s = Some ?t" using x y Assign_Options by simp
    obtain up where up: "values_of (creds_of s) (Suc i) = Some up" "opt_values_of s i = Some (opt_value_from x up)"
      using values_of_creds_Suc [OF x] by blast
    obtain uq where uq: "values_of (creds_of s) (Suc j) = Some uq" "opt_values_of s j = Some (opt_value_from y uq)"
      using values_of_creds_Suc [OF y] by blast
    from exec_opt_values [OF K Z inv e] Assign_Options up(1) uq(1)
    have "values_of (creds_of ?t) = (values_of (creds_of s))(Suc i \<mapsto> uq)" by simp
    from opt_values_of_upd [OF this, of "fst (assign_Options K (i = j) x y (op_mem s))"] e Assign_Options up(2) uq(2)
    show ?thesis
      by (simp add: assign_Options_def opt_value_from_def split_beta)
  qed (use Assign_Options opt_values_of_None [of s i] opt_values_of_None [of s j] in \<open>auto split: option.split\<close>)
next
  case (Delete_Options i)
  show ?thesis
  proof (cases "op_objs s i")
    case (Some x)
    then obtain t where e: "exec_opt K Z a s = Some t" and t: "op_objs t = (op_objs s)(i := None)"
      using Delete_Options by simp
    have "values_of (creds_of s) (Suc i) \<noteq> None" using Some by (simp add: values_of_None)
    with exec_opt_values [OF K Z inv e] Delete_Options
    have "values_of (creds_of t) = (values_of (creds_of s))(Suc i := None)" by auto
    then have "opt_values_of t = (opt_values_of s)(i := None)"
      by (auto simp: fun_eq_iff opt_values_of_creds t)
    with e Delete_Options Some opt_values_of_None [of s i] show ?thesis by simp
  qed (use Delete_Options opt_values_of_None [of s i] in auto)
qed (use plain in \<open>auto intro!: on_options_refines simp: opt_value_from_def\<close>)

lemma then_set_hostname_refines:
  assumes K: "impl_ok K" and Z: "memzero_documented Z" and inv: "cred_inv (creds_of s)" and plain: "\<not> is_move a"
  shows "map_option opt_values_of (Option.bind (exec_opt K Z a s) (exec_opt K Z (Set_Hostname j left)))
     = Option.bind (spec_opt a (opt_values_of s)) (spec_opt (Set_Hostname j left))"
proof (cases "exec_opt K Z a s")
  case None
  with exec_plain_refines [OF assms] show ?thesis by simp
next
  case (Some t)
  have "cred_inv (creds_of t)" using exec_opt_values [OF K Z inv Some] by simp
  moreover have "spec_opt a (opt_values_of s) = Some (opt_values_of t)" using exec_plain_refines [OF assms] Some by simp
  ultimately show ?thesis using exec_plain_refines [OF K Z, of t "Set_Hostname j left"] Some
    by (simp del: exec_opt.simps spec_opt.simps)
qed

lemma exec_opt_refines:
  assumes "impl_ok K" and "memzero_documented Z" and "cred_inv (creds_of s)"
  shows "map_option opt_values_of (exec_opt K Z a s) = spec_opt a (opt_values_of s)"
proof (cases "is_move a")
  case True
  then show ?thesis
    by (cases a rule: is_move.cases)
      (simp_all only: moves is_move.simps then_set_hostname_refines [OF assms] not_False_eq_True)
qed (rule exec_plain_refines [OF assms])

lemma run_opts_refines:
  assumes "impl_ok K" and "memzero_documented Z"
  shows "cred_inv (creds_of s) \<Longrightarrow> map_option opt_values_of (run_opts K Z as s) = spec_opts as (opt_values_of s)
     \<and> (\<forall>t. run_opts K Z as s = Some t \<longrightarrow> cred_inv (creds_of t))"
proof (induction as arbitrary: s)
  case (Cons a as)
  note step = exec_opt_refines [OF assms Cons.prems, of a]
  show ?case
  proof (cases "exec_opt K Z a s")
    case None
    with step have "spec_opt a (opt_values_of s) = None" by simp
    with None show ?thesis by simp
  next
    case (Some t)
    with step have "spec_opt a (opt_values_of s) = Some (opt_values_of t)" by simp
    moreover have "cred_inv (creds_of t)" using exec_opt_values [OF assms Cons.prems Some] by simp
    ultimately show ?thesis using Some Cons.IH by simp
  qed
qed simp

lemma creds_of_none: "creds_of (no_options m) = no_credentials m"
  by (auto simp: creds_of_def no_options_def no_credentials_def fun_eq_iff split: nat.split)

lemma opt_values_of_none: "opt_values_of (no_options m) = Map.empty"
  by (simp add: opt_values_of_def no_options_def)

section \<open>Properties\<close>

text \<open>C9: \<open>Options\<close> behave as values: for every program that makes options, sets their members (new
  credentials among them), copies, moves, assigns and destroys them, on every string implementation and
  allocator, each object alive has the settings, the user name and the password that the specification gives
  it, starting from the documented defaults; and each byte of the password of every credentials object that
  was destroyed, the local one of a new setting included, is zero in memory, unless the allocator has handed
  out the memory that holds it again since that destruction.\<close>

theorem options_refine_values:
  assumes "impl_ok K" and "memzero_documented Z"
  shows "map_option opt_values_of (run_opts K Z ops (no_options m)) = spec_opts ops Map.empty
     \<and> (\<forall>s g n k. run_opts K Z ops (no_options m) = Some s \<and> (g, n) \<in> set (op_dead s) \<and> k < str_size g \<longrightarrow>
          str_data g + k \<in> rehanded (op_mem s) n \<or> cells (op_mem s) (str_data g + k) = 0)"
proof -
  note r = run_opts_refines [OF assms, of "no_options m" ops, unfolded creds_of_none, OF cred_inv_none]
  have "str_data g + k \<in> rehanded (op_mem s) n \<or> cells (op_mem s) (str_data g + k) = 0"
    if s: "run_opts K Z ops (no_options m) = Some s" and g: "(g, n) \<in> set (op_dead s)" and k: "k < str_size g" for s g n k
  proof -
    from r s g have "erased_unless_rehanded (op_mem s) (g, n)" by (auto simp: cred_inv_def)
    with k show ?thesis by (auto simp: erased_unless_rehanded_def)
  qed
  with r show ?thesis by (auto simp: opt_values_of_none)
qed

theorem options_refine_values_witness:
  "\<exists>s. run_opts sample_strings sample_memzero
       [Make 0, Copy_Options 1 0, Set_Credentials 1 [7] [5, 6], Set_Port 1 1234,
        Move_Options 2 1 [], Delete_Options 0] (no_options empty_memory) = Some s
     \<and> opt_values_of s 2 = Some (default_value\<lparr>ov_port := 1234, ov_username := [7], ov_password := [5, 6]\<rparr>)
     \<and> opt_values_of s 0 = None"
proof -
  let ?ops = "[Make 0, Copy_Options 1 0, Set_Credentials 1 [7] [5, 6], Set_Port 1 1234,
        Move_Options 2 1 [], Delete_Options 0]"
  have "\<exists>v. spec_opts ?ops Map.empty = Some v
      \<and> v 2 = Some (default_value\<lparr>ov_port := 1234, ov_username := [7], ov_password := [5, 6]\<rparr>) \<and> v 0 = None"
    by (simp add: on_value_def default_value_def)
  then obtain v where "spec_opts ?ops Map.empty = Some v"
      and v: "v 2 = Some (default_value\<lparr>ov_port := 1234, ov_username := [7], ov_password := [5, 6]\<rparr>)" "v 0 = None"
    by blast
  then have "map_option opt_values_of (run_opts sample_strings sample_memzero ?ops (no_options empty_memory)) = Some v"
    using options_refine_values [OF sample_strings_ok sample_memzero_documented, of ?ops empty_memory] by simp
  with v show ?thesis by (auto simp del: run_opts.simps)
qed

end
