(* ===== verification/Iggy_Tests.thy ===== *)
theory Iggy_Tests
  imports Iggy_Address Iggy_Serialization Iggy_SslContext Iggy_Client
begin

text \<open>
  The unit tests of the repository (\<^verbatim>\<open>src/tests\<close>) replayed on the model, one lemma per test case
  or section, in the order of the assertions there. The libraries are the samples of the
  theories of the components, except for wolfSSL, which is any library that hands out contexts
  not in use, and accepts what it is asked for. Left out are the assertions on wolfSSL alone, and
  the end-to-end test, which needs a server.
\<close>

section \<open>iggy\_protocol\_provider\_test.cc\<close>

lemma test_enumerate_supported_protocols: "length (getSupportedProtocols iggy_provider) = 5"
  by (simp add: iggy_protocols_def)

lemma test_supported_definition:
  assumes "d \<in> set iggy_protocols"
  shows "isSupported iggy_provider (pd_name d) = Inr True \<and> getProtocolDefinition iggy_provider (pd_name d) = Inr d"
  using iggy.listed_found [of d] iggy.supported_iff_found [of "pd_name d"] assms by simp

lemma test_check_supported_protocol_definitions:
  assumes "(protocolName, tlsSupported) \<in>
    {(''quic'', True), (''tcp'', False), (''tcp+tls'', True), (''http'', False), (''http+tls'', True)}"
  shows "isSupported iggy_provider protocolName = Inr True"
    and "\<exists>d. getProtocolDefinition iggy_provider protocolName = Inr d \<and> pd_name d = protocolName
      \<and> pd_tlsSupported d = tlsSupported"
proof -
  have "(protocolName, tlsSupported) \<in> (\<lambda>d. (pd_name d, pd_tlsSupported d)) ` set iggy_protocols"
    using assms by (auto simp: iggy_protocols_def)
  then obtain d where "d \<in> set iggy_protocols" "pd_name d = protocolName" "pd_tlsSupported d = tlsSupported"
    by auto
  with test_supported_definition [of d] show "isSupported iggy_provider protocolName = Inr True"
    and "\<exists>d. getProtocolDefinition iggy_provider protocolName = Inr d \<and> pd_name d = protocolName
      \<and> pd_tlsSupported d = tlsSupported" by auto
qed

lemma test_create_addresses:
  assumes "(address, protocolName, host, port) \<in>
    {(''quic://localhost'', ''quic'', ''localhost'', 8080), (''tcp://localhost:1234'', ''tcp'', ''localhost'', 1234),
     (''tcp+tls://localhost:1234'', ''tcp+tls'', ''localhost'', 1234), (''http://localhost'', ''http'', ''localhost'', 3000),
     (''http+tls://localhost:1234'', ''http+tls'', ''localhost'', 1234)}"
  shows "\<exists>a. createAddress sample_ada iggy_provider address = Inr a \<and> getProtocol sample_ada a = Inr protocolName
    \<and> getHost sample_ada a = host \<and> getPort sample_ada a = Inr port"
proof -
  obtain u where u: "ada_parse sample_ada address = Some u" and p: "fst u = protocolName @ '':''" "fst (snd u) = host"
    and q: "snd (snd u) = [] \<and> (\<exists>d \<in> set iggy_protocols. pd_name d = protocolName \<and> pd_defaultPort d = port)
      \<or> snd (snd u) = nat_decimal 1234 \<and> port = 1234"
    and n: "protocolName \<in> pd_name ` set iggy_protocols"
    using assms by (auto simp: sample_ada_def sample_urls_def iggy_protocols_def)
  from n test_supported_definition have s: "isSupported iggy_provider protocolName = Inr True" by auto
  let ?a = "\<lparr>la_url = u, la_protocolProvider = iggy_provider\<rparr>"
  have ada: "ada_protocol sample_ada = fst" "ada_hostname sample_ada = fst \<circ> snd" "ada_port sample_ada = snd \<circ> snd"
    by (simp_all add: sample_ada_def)
  have "createAddress sample_ada iggy_provider address = Inr ?a"
    using u p s by (simp add: createAddress_Inr_iff ada)
  moreover have "getPort sample_ada ?a = Inr port"
    using q p test_supported_definition nat_decimal_nonempty [of 1234] nat_decimal_nonempty [of 1234, symmetric]
    by (auto simp: getPort_def ada getProtocol_eq address_getProtocolDefinition_def stoi_nat_decimal)
  ultimately show ?thesis using p by (auto simp: getProtocol_eq getHost_def ada)
qed

section \<open>crypto\_test.cc\<close>

lemma test_certificate_loading:
  "\<exists>cs cert. mk_LocalCertificateStore sample_fs (Some ''/pki'') = Inr cs
     \<and> getCertificate sample_fs cs ''a.pem'' = Inr cert \<and> length cert > 0"
  using sample_stores(1)
  by (simp add: getCertificate_def sample_fs_def store_defs path_div_def is_absolute_path_def)

lemma test_private_key_loading:
  "\<exists>ks pk. mk_LocalKeyStore sample_fs (Some ''/pki'') = Inr ks
     \<and> getPrivateKey sample_fs ks ''a.pem'' = Inr pk \<and> length pk > 0"
  using sample_stores(2)
  by (simp add: getPrivateKey_def sample_fs_def store_defs path_div_def is_absolute_path_def)

lemma test_revocation_methods:
  "getCrlPath default_CRL = None" "getCrlUrl default_CRL = None"
  "getOcspOverrideUrl default_OCSP = None" "isStaplingEnabled default_OCSP"
  by (simp_all add: default_CRL_def default_OCSP_def)

section \<open>ssl\_test.cc\<close>

text \<open>In the build that the tests require.\<close>

lemma full_ciphers:
  "getDefaultCipherList full_build TLSV1_2 = Inr all_tls12" "getDefaultCipherList full_build TLSV1_3 = Inr all_tls13"
  by (simp_all add: getDefaultCipherList_Inr full_build_def tls12_ciphers_def tls13_ciphers_def
      all_tls12_def all_tls13_def)

lemma test_default_settings:
  "\<exists>options. mk_SSLOptions full_build CLIENT = Inr options \<and> ssl_validate True options = Inr ()
     \<and> peerType options = CLIENT \<and> peerCertPath options = None \<and> minimumSupportedProtocolVersion options = TLSV1_3"
  by (simp add: mk_SSLOptions_def full_ciphers ssl_validate_Inr)

lemma test_default_cipher_list:
  "map_sum id length (getDefaultCipherList full_build TLSV1_2) = Inr 6"
  "map_sum id length (getDefaultCipherList full_build TLSV1_3) = Inr 3"
  "''TLS_ECDHE_RSA_WITH_AES_256_GCM_SHA384'' \<in> set all_tls12" "''TLS_CHACHA20_POLY1305_SHA256'' \<in> set all_tls13"
  by (simp_all add: full_ciphers) (simp_all add: all_tls12_def all_tls13_def)

lemma test_bespoke_ciphers:
  assumes "mk_SSLOptions full_build CLIENT = Inr options"
  shows "ciphers (setCiphers [''TLS_ECDHE_RSA_WITH_AES_256_GCM_SHA384''] options) = [''TLS_ECDHE_RSA_WITH_AES_256_GCM_SHA384'']"
    and "ssl_validate True (setCiphers [''TLS_ECDHE_RSA_WITH_AES_256_GCM_SHA384''] options) = Inr ()"
  using mk_SSLOptions_Inr [OF assms] by (simp_all add: setCiphers_def ssl_validate_Inr)

lemma test_server_options:
  assumes "mk_SSLOptions full_build CLIENT = Inr options"
    and "server = setPeerType SERVER options" and "fixed = setPeerCertificatePath ''test.pem'' server"
    and "lowered = setMinimumSupportedProtocolVersion TLSV1_2 fixed"
  shows "throws (ssl_validate False server)" and "throws (ssl_validate True lowered)"
    and "ssl_validate False lowered = Inr ()"
    and "ssl_validate True (setMinimumSupportedProtocolVersion TLSV1_3 lowered) = Inr ()"
  using assms(2-4) mk_SSLOptions_Inr [OF assms(1)] by (simp_all add: option_setters ssl_validate_def)

text \<open>
  The contexts of "SSL context init", which are constructed, copied, moved and assigned in turn, in the
  order of the test. The numbered worlds are those between the calls.
\<close>

definition wolfssl_accepts :: "wolfssl \<Rightarrow> bool" where
  "wolfssl_accepts W \<longleftrightarrow> allocator_fresh W \<and> (\<forall>h m. ctx_new_result W h m \<noteq> None)
     \<and> (\<forall>h c s. set_cipher_result W h c s = SSL_SUCCESS W)"

lemma accepting_copies:
  assumes "wolfssl_accepts W"
  shows "sc_ctx (fst (ssl_copy_construct W x w)) \<noteq> None"
    and "sc_ctx (fst (ssl_copy_construct W x w)) \<notin> Some ` live (events w)"
    and "sc_ctx (fst (ssl_copy_assign W False this x w)) \<noteq> None"
    and "sc_ctx this = None \<Longrightarrow> sc_ctx (fst (ssl_copy_assign W False this x w)) \<notin> Some ` live (events w)"
  using assms
  by (auto simp: wolfssl_accepts_def allocator_fresh_def ssl_copy_construct_def ssl_copy_assign_def
      wolfSSL_CTX_new_eq free_if_set_def)

lemma test_context_construction:
  assumes "wolfssl_accepts W" and "mk_SSLOptions full_build CLIENT = Inr defaults"
    and "(requestedVersion, minProtoVersion) \<in> {(TLSV1_2, TLS1_2_VERSION), (TLSV1_3, TLS1_3_VERSION)}"
    and "options = setMinimumSupportedProtocolVersion requestedVersion (setPeerCertificatePath certPath defaults)"
  shows "\<exists>sslCtx c m t w'. ssl_construct W a options b w = (Inr sslCtx, w') \<and> getNativeHandle sslCtx = Some c
    \<and> ctx_config (SSL_SUCCESS W) (events w') c = Some (m, Some minProtoVersion, t) \<and> c \<in> live (events w')"
proof -
  have v: "minimumSupportedProtocolVersion options = requestedVersion"
    using assms(4) by (simp add: option_setters)
  obtain m where m: "client_method requestedVersion = Inr (m, minProtoVersion)"
    using assms(3) by (auto simp: client_method_def)
  obtain c where c: "ctx_new_result W (events (call_once_init w)) m = Some c"
    using assms(1) unfolding wolfssl_accepts_def by fast
  show ?thesis
    using assms(1) m v c by (simp add: wolfssl_accepts_def ssl_construct_def wolfSSL_CTX_new_eq Let_def getNativeHandle_def)
qed

lemma test_context_copies_and_moves:
  assumes "wolfssl_accepts W" and "getNativeHandle sslCtx = Some c" and "c \<in> live (events w0)"
    and "(sslCtxNew, w1) = ssl_copy_construct W sslCtx w0"
    and "(sslCtxMoved, sslCtxNew1) = ssl_move_construct sslCtxNew"
    and "(sslCtxNew2, w2) = ssl_copy_assign W False sslCtxNew1 sslCtxMoved w1"
    and "(other, sslCtx1, w3) = ssl_move_assign False sslCtxOther sslCtx w2"
  shows "getNativeHandle sslCtx \<noteq> getNativeHandle sslCtxNew"
    and "getNativeHandle sslCtxNew1 = None" and "getNativeHandle sslCtxMoved \<noteq> None"
    and "getNativeHandle sslCtx \<noteq> getNativeHandle sslCtxNew2"
    and "getNativeHandle other = getNativeHandle sslCtx \<and> getNativeHandle sslCtx1 = None"
proof -
  note new = accepting_copies [OF assms(1)]
  have n: "sslCtxNew = fst (ssl_copy_construct W sslCtx w0)" "w1 = snd (ssl_copy_construct W sslCtx w0)"
    using assms(4) by (metis fst_conv, metis snd_conv)
  have e: "sslCtxNew2 = fst (ssl_copy_assign W False sslCtxNew1 sslCtxMoved w1)" using assms(6) by (metis fst_conv)
  have moved: "sc_ctx sslCtxMoved = sc_ctx sslCtxNew" "sc_ctx sslCtxNew1 = None"
    using assms(5) by (simp_all add: ssl_move_construct_def)
  have live: "c \<in> live (events w1)"
    using assms(3) n(2) by (cases "ctx_new_result W (events w0) wolfTLSv1_3_client_method")
      (simp_all add: ssl_copy_construct_def wolfSSL_CTX_new_eq)
  show "getNativeHandle sslCtx \<noteq> getNativeHandle sslCtxNew"
    using new(2) [of sslCtx w0] assms(2,3) n(1) by (metis getNativeHandle_def image_eqI)
  show "getNativeHandle sslCtxNew1 = None" "getNativeHandle sslCtxMoved \<noteq> None"
    using moved new(1) [of sslCtx w0] n(1) by (simp_all add: getNativeHandle_def)
  show "getNativeHandle sslCtx \<noteq> getNativeHandle sslCtxNew2"
    using new(4) [of sslCtxNew1 sslCtxMoved w1] moved(2) assms(2) live e by (metis getNativeHandle_def image_eqI)
  show "getNativeHandle other = getNativeHandle sslCtx \<and> getNativeHandle sslCtx1 = None"
    using assms(7) by (simp add: ssl_move_assign_def getNativeHandle_def)
qed

lemma test_protocol_version_name:
  "getProtocolVersionName TLSV1_2 = Inr ''TLSV1_2''" "getProtocolVersionName TLSV1_3 = Inr ''TLSV1_3''"
  by (simp_all add: getProtocolVersionName_def)

section \<open>serialization\_test.cc\<close>

lemma test_valid_utf8: "fst (convertToUTF8 ascii_lib ''hello world'' True []) = Inr ''hello world''"
proof -
  have "NUL \<notin> set ''hello world''" by (simp add: NUL_def)
  then have "c_str ''hello world'' = ''hello world''" by (rule c_str_id)
  then show ?thesis by (simp add: convertToUTF8_def ascii_valid is_ascii_def)
qed

definition invalid_utf8 :: string where
  "invalid_utf8 = ''hello '' @ CHR 0x80 # '' world''"

lemma invalid_utf8_c_str: "c_str invalid_utf8 = invalid_utf8"
  by (rule c_str_id) (simp add: invalid_utf8_def NUL_def)

lemma invalid_utf8_invalid: "utf8valid ascii_lib (c_str invalid_utf8) \<noteq> None"
  unfolding invalid_utf8_c_str ascii_valid by (simp add: invalid_utf8_def is_ascii_def)

lemma test_invalid_utf8_strict: "\<exists>m. fst (convertToUTF8 ascii_lib invalid_utf8 True []) = Inl (Invalid_Argument m)"
  using convert_strict_invalid [OF invalid_utf8_invalid] by simp

lemma test_invalid_utf8_non_strict: "fst (convertToUTF8 ascii_lib invalid_utf8 False []) = Inr ''hello ? world''"
  unfolding convert_lossy_invalid [OF ascii_lib_documented invalid_utf8_invalid] invalid_utf8_c_str
  by (simp add: invalid_utf8_def ascii_lib_def is_ascii_def)

section \<open>client\_test.cc\<close>

lemma test_client_connection: "mk_Client (fst (default_Options K m)) = Inr c \<and> getStats c = default_Stats"
  by (cases c) (simp add: mk_Client_iff default_Options_def getStats_def split_beta)

end
