(* ===== verification/Spec2Isabelle.thy ===== *)
theory Spec2Isabelle
  imports Iggy_Address Iggy_Serialization Iggy_Races Iggy_Cleanup Iggy_Threads Iggy_Lifetime
    Iggy_Statics Iggy_DefaultThreads Iggy_WireFormat Iggy_Options Iggy_Tests
begin

text \<open>
  \<^bold>\<open>The Iggy C++ client SDK\<close>

  A shallow embedding of the library under \<^verbatim>\<open>src/sdk\<close>: every class and function that
  has a body there is a record, a datatype or an executable function of this development, under
  the name it has in the code where that name is free. An exception is a value: a function that
  may throw returns \<open>'a result\<close>, that is \<open>exn + 'a\<close>, with one constructor of \<open>exn\<close>
  per exception type and the message of the exception.

  \<^bold>\<open>Parts of the program and their theories\<close>

  \<^item> \<open>Iggy_Prelude\<close>: machine integers, exceptions as values, decimal rendering, and the locales
    \<open>transition_system\<close> (an initial state, a step relation and an invariant), \<open>simulation\<close> (its states seen
    through a projection) and \<open>terminating_system\<close> (every step lowers a weight), which the stateful
    parts interpret.
  \<^item> \<open>Iggy_Strings\<close>: the operations of \<open>std::string\<close> and the C library that the code uses
    (\<open>find_first_not_of\<close>, \<open>find_last_not_of\<close>, \<open>substr\<close>, \<open>tolower\<close>, \<open>stoi\<close>, C strings),
    including the wrap-around of \<open>size_t\<close> and their exceptions.
  \<^item> \<open>Iggy_Protocol\<close>: \<^verbatim>\<open>net/transport.h\<close>, the class \<open>ProtocolDefinition\<close> of
    \<^verbatim>\<open>net/protocol.h\<close>, and \<open>normalizeProtocolName\<close> of \<^verbatim>\<open>net/protocol.cc\<close>.
  \<^item> \<open>Iggy_Provider\<close>: the abstract class \<open>ProtocolProvider\<close> as a record of its virtual
    functions, its contract as the locale \<open>protocol_provider\<close>, and \<^verbatim>\<open>net/iggy.h\<close>,
    \<^verbatim>\<open>net/iggy.cc\<close>, whose provider interprets the locale.
  \<^item> \<open>Iggy_Address\<close>: \<open>LogicalAddress\<close> of \<^verbatim>\<open>net/address.h\<close> and
    \<^verbatim>\<open>net/address.cc\<close>, and \<open>createAddress\<close>. The ada URL library is a parameter, a
    record of the functions called; what is relied on is stated as \<open>ada_schemes\<close>,
    \<open>ada_ports\<close> and \<open>ada_default_ports\<close> (the URL standard).
  \<^item> \<open>Iggy_Serialization\<close>: \<open>convertToUTF8\<close> of \<^verbatim>\<open>serialization.cc\<close>, over the utf8.h
    library as a parameter and the list of the buffers still allocated.
  \<^item> \<open>Iggy_Stores\<close>: the two local stores of \<^verbatim>\<open>net/crypto/crypto.cc\<close> over a file system as
    a parameter, whose working directory may be unavailable, with their common specification as the locale \<open>file_store\<close>, which both
    interpret.
  \<^item> \<open>Iggy_Races\<close>: the same two read operations when others change the files between the check
    that a file exists and its opening; the locale \<open>racing_store\<close> extends \<open>file_store\<close>.
  \<^item> \<open>Iggy_Pki\<close>: the revocation methods, authorities, default instances and the
    \<open>PKIEnvironment\<close> of \<^verbatim>\<open>net/crypto/crypto.h\<close>, over an explicit store of objects,
    since its members are references and sharing decides what the setters do; programs make, copy, share
    and delete these objects. The default arguments of a constructor are evaluated in any order.
  \<^item> \<open>Iggy_Statics\<close>: the default instances as function-local statics, made by several threads that
    evaluate the default arguments of \<open>PKIEnvironment\<close> at once, in any order, and may throw.
  \<^item> \<open>Iggy_SslOptions\<close>: \<open>SSLOptions\<close>, \<open>getDefaultCipherList\<close> and \<open>validate\<close> of
    \<^verbatim>\<open>net/crypto/ssl.h\<close> and \<^verbatim>\<open>net/crypto/ssl.cc\<close>; the preprocessor conditions are
    the fields of a build configuration.
  \<^item> \<open>Iggy_SslContext\<close>: the special member functions of \<open>SSLContext\<close>, over wolfSSL as a
    parameter and a history of the calls made to it, and programs over contexts as a step relation.
  \<^item> \<open>Iggy_Cleanup\<close>: the end of such a program, the destruction of its objects in any order.
  \<^item> \<open>Iggy_Threads\<close>: the constructor call by call, run by several threads that meet at
    \<open>std::call_once\<close>; a step of the system is a step of one thread.
  \<^item> \<open>Iggy_Lifetime\<close>: programs that also create, change and delete the options, environments and PKI objects
    that contexts refer to, with the default arguments of the constructor, which are temporaries: objects
    while the constructor runs, and destroyed after it.
  \<^item> \<open>Iggy_DefaultThreads\<close>: the composition of \<open>Iggy_Statics\<close> and \<open>Iggy_Threads\<close>, threads that construct
    contexts with default arguments: static instances first, \<open>call_once\<close> and wolfSSL then.
  \<^item> \<open>Iggy_Model\<close>: the value objects of \<^verbatim>\<open>model.h\<close> over the types of \<^verbatim>\<open>types.h\<close>.
  \<^item> \<open>Iggy_Command\<close>: the commands of \<^verbatim>\<open>command.h\<close> and the codes of \<^verbatim>\<open>binary.h\<close>.
  \<^item> \<open>Iggy_WireFormat\<close>: the class hierarchy and the conditions on the two templates of
    \<open>WireFormat\<close> in \<^verbatim>\<open>serialization.h\<close>.
  \<^item> \<open>Iggy_Credentials\<close>: \<open>Credentials\<close> of \<^verbatim>\<open>client.h\<close> over a memory of bytes, with the copies
    that the compiler generates, and programs over such objects; \<open>sodium_memzero\<close>, the allocator, which may
    hand out memory again that was given back, and what else the standard leaves to an
    implementation of \<open>std::string\<close> are parameters.
  \<^item> \<open>Iggy_Client\<close>: the rest of \<^verbatim>\<open>client.h\<close> and \<^verbatim>\<open>client.cc\<close>; the process library
    behind \<open>ping\<close> is a parameter.
  \<^item> \<open>Iggy_Options\<close>: the copies, moves and assignments that the compiler generates for \<open>Options\<close>, and programs over
    such objects, each simulated by a program of \<open>Iggy_Credentials\<close>.
  \<^item> \<open>Iggy_Tests\<close>: the unit tests of \<^verbatim>\<open>src/tests\<close>, replayed on the model.

  \<^bold>\<open>How the parts interact\<close>

  The provider builds its definitions with the normalizing constructor, and indexes them by name;
  an address asks its provider, through the interface, whether its scheme is supported, and for the
  default port when the URL has none. The PKI environment refers to an authority and to a
  certificate and a key store; an SSL context refers to options and to an environment, and
  owns a wolfSSL context. The client validates its options and keeps none of them: at this commit
  neither it nor any other part uses addresses, commands or contexts to reach a server.

  \<^bold>\<open>What the lemmas show\<close>

  \<^item> Names: the index arithmetic of the normalization is trimming and lower-casing, its
    result is canonical and a fixed point; the provider supports exactly five names, and its lookup
    refines a search in the list it publishes.
  \<^item> Addresses: every outcome of the creation; the guarantees documented for an address;
    \<open>getPort\<close> cannot fail on a created address and its number fits 16 bits. Two theorems show
    where documentation and code part (port 80, the scheme \<open>iggy\<close>).
  \<^item> Stores: both refine one specification on every file system, errors included, that of an unknown working
    directory among them; a directory does not confine a store; a read with interference returns what an undisturbed one could.
  \<^item> PKI: a reference or pointer dangles exactly when the program deleted the object behind it, the default
    instances stay, and what the setters share, copy, and leave undone (a shared revocation
    method that its owner deletes is left behind as a dangling pointer).
  \<^item> PKI, beyond one thread: each static instance is made once, all threads get the same, a
    constructor that throws leaves its lock to the next, and every run ends.
  \<^item> SSL: an ownership invariant by rule induction over programs (no context is freed twice
    or used after it was freed, no two objects own one), the configuration of a constructed
    context, and the cases in which the code leaks one or loses its configuration.
  \<^item> SSL, beyond one thread: whatever the schedule, the library is initialized once, before
    every other call; each thread configures its own context; every run ends, with every thread
    finished. Clean-up frees exactly what can be freed, each context once, and calls nothing else.
  \<^item> Default arguments in several threads: a run of the composition is a run of each part, so what
    is proved of the parts holds in it; the two kinds of locks do not block each other; all contexts are configured alike. (Lemmas
    \<open>solo_sequential\<close> and \<open>solo_default\<close> relate a thread that runs alone to the sequential constructors,
    in every order of their arguments; the concrete runs rest on them.)
  \<^item> SSL and PKI together: the references of a context, down to the revocation method, are classified in
    every state: valid, or to an object that the program deleted, or to a temporary of a construction
    with default arguments, after which they are never valid; the outcomes of that construction are given.
  \<^item> Conversion, commands, model, client: totality and idempotence of the lossy conversion, what its
    check leaves unchecked, the agreement of command classes and codes, discriminators, what can be read and written, and
    what a client does with its options.
  \<^item> Credentials: by separation of the buffers, objects refine values on every allocator; a destroyed password
    is erased, and stays so in every later state until the allocator hands its memory out again, but one that an assignment replaces is left in memory. \<open>Options\<close>
    refine values too, by a simulation by programs over credentials.
  \<^item> Tests: what the unit tests assert of the library holds of the model.

  \<^bold>\<open>Bounds and termination\<close>

  There is no fuel: every loop of the code is a structural recursion on a list or a string; the search
  through base classes ends since no class has a grandparent. A thread takes at most eight steps, so the
  weight of a system of \<open>n\<close> threads, the sum of the steps left, is at most \<open>8 * n\<close>; one that makes an
  environment takes at most seven, and one that makes a context with default arguments sixteen, the sum of
  both and one for the options. Port numbers, lengths and identifiers are words of the width of their C++
  types; \<open>npos\<close> is the 64-bit maximum. \<open>stoi\<close> throws outside the 32-bit range. Strings are lists of 8-bit
  characters; memory addresses are natural numbers.

  \<^bold>\<open>Not modelled\<close>

  \<^item> An encoding of commands or models: \<open>WireFormat\<close> declares two templates without a body and its
    subclasses are empty.
  \<^item> \<^verbatim>\<open>net/quic\<close>, \<^verbatim>\<open>ssl_engine.h\<close>, \<^verbatim>\<open>model.cc\<close>: include guards and includes.
  \<^item> Log lines, memory exhaustion (\<open>std::bad_alloc\<close>), an exception out of
    \<open>wolfSSL_Init\<close> (a C function), and threads that share one object without synchronization, which
    the language leaves undefined. An allocator that itself writes into memory that was given back: in
    \<open>Iggy_Credentials\<close> the bytes of a freed buffer stay until the buffer is handed out again.
  \<^item> Changes of a file between the opening of a stream and the end of its reading: what a stream delivers is
    one answer of the file system in which it was opened.
  \<^item> The effect of a minimum version that wolfSSL refuses: the result of the call is in the history, and ignored
    by the code; the configuration of a context in the theorems has the version that was asked for.
  \<^item> The libraries ada, utf8.h, fmt, spdlog, wolfSSL, reproc and libsodium, and the file system:
    parameters of the model. \<open>fmt::format\<close> is written out where a message is built.

  \<^bold>\<open>Further work\<close>

  \<^item> Threads that share an environment while it is configured, once the code synchronizes them.
  \<^item> A wire format for the commands, once the code has one; the discriminators and codes are ready.
\<close>

end
